theory Spec2Isabelle
  imports Main "HOL-Library.Word"
begin

unbundle bit_operations_syntax

section \<open>The replayer of \<open>replay.c\<close>: data model\<close>

text \<open>
  Memory is a store of bytes addressed relative to the start of the buffer a function
  receives: address \<open>0\<close> is \<open>buffer[0]\<close>, and the addresses from \<open>len\<close> on lie
  behind the \<open>len\<close> bytes the caller allocated. A \<open>size_t\<close> is a natural number
  (below \<open>2 ^ 64\<close>), a C \<open>int\<close> that is stored in memory a \<open>32 word\<close>.
\<close>

type_synonym byte = "8 word"
type_synonym mem = "nat \<Rightarrow> byte"

text \<open>\<open>enum fill_type {PATTERN, ONES, BYTE_REPEAT, RANDOM_EACH_BYTE}\<close>\<close>

datatype fill_type = PATTERN | ONES | BYTE_REPEAT | RANDOM_EACH_BYTE

subsection \<open>The payload generator \<open>generate_data\<close>\<close>

text \<open>\<open>memset(buffer, c, len)\<close>: the bytes \<open>0 .. len - 1\<close> become \<open>(unsigned char) c\<close>.\<close>

definition memset :: "mem \<Rightarrow> int \<Rightarrow> nat \<Rightarrow> mem" where
  "memset buffer c len = (\<lambda>a. if a < len then word_of_int c else buffer a)"

text \<open>
  A store through an \<open>int *\<close> at byte address \<open>a\<close>: four bytes, least significant first
  (the replayer runs on Linux on little-endian hardware).
\<close>

definition store_int :: "mem \<Rightarrow> nat \<Rightarrow> 32 word \<Rightarrow> mem" where
  "store_int buffer a w =
     buffer(a := ucast w,
            a + 1 := ucast (drop_bit 8 w),
            a + 2 := ucast (drop_bit 16 w),
            a + 3 := ucast (drop_bit 24 w))"

text \<open>Byte \<open>j\<close> (\<open>0 .. 3\<close>) of the representation of an \<open>int\<close> in memory.\<close>

definition int_byte :: "32 word \<Rightarrow> nat \<Rightarrow> byte" where
  "int_byte w j = ucast (drop_bit (8 * j) w)"

text \<open>The load through an \<open>int *\<close> at byte address \<open>a\<close>.\<close>

definition load_int :: "mem \<Rightarrow> nat \<Rightarrow> 32 word" where
  "load_int buffer a =
     ucast (buffer a) OR push_bit 8 (ucast (buffer (a + 1)))
       OR push_bit 16 (ucast (buffer (a + 2))) OR push_bit 24 (ucast (buffer (a + 3)))"

text \<open>\<open>#define min(x, y) ((x >= y) ? y : x)\<close>\<close>

definition min_c :: "nat \<Rightarrow> nat \<Rightarrow> nat" where
  "min_c x y = (if x \<ge> y then y else x)"

text \<open>\<open>for (int i = 0; i < new_offset; i++) buffer[i] = 0;\<close>\<close>

function pad_loop :: "mem \<Rightarrow> nat \<Rightarrow> nat \<Rightarrow> mem" where
  "pad_loop buffer i new_offset =
     (if i < new_offset then pad_loop (buffer(i := 0)) (i + 1) new_offset else buffer)"
  by pat_completeness auto
termination
  by (relation "measure (\<lambda>(buffer, i, new_offset). new_offset - i)") auto

declare pad_loop.simps [simp del]

text \<open>\<open>INT_MAX\<close> of \<open>limits.h\<close>: an \<open>int\<close> has 32 bits.\<close>

definition INT_MAX :: int where
  "INT_MAX = 2 ^ 31 - 1"

text \<open>
  \<open>for (int i = 0; i <= len / sizeof(int); i++) ip[i] = offset / sizeof(int) + i;\<close>
  with \<open>ip = (int *)(buffer + new_offset)\<close>. The counter \<open>i\<close> is an \<open>int\<close>. In the
  test it is converted to \<open>size_t\<close>, so that a negative \<open>i\<close> is above every
  \<open>len / sizeof(int)\<close>, and \<open>i++\<close> at \<open>INT_MAX\<close> is a signed overflow, which the C
  standard leaves undefined: the result \<open>None\<close>. The right-hand side of the assignment
  is a \<open>size_t\<close>; the assignment to an \<open>int\<close> keeps its low 32 bits.
\<close>

function int_loop :: "mem \<Rightarrow> nat \<Rightarrow> int \<Rightarrow> nat \<Rightarrow> nat \<Rightarrow> mem option" where
  "int_loop buffer new_offset i len offset =
     (if 0 \<le> i \<and> nat i \<le> len div 4
      then (if i = INT_MAX then None
            else int_loop
                   (store_int buffer (new_offset + 4 * nat i) (word_of_nat (offset div 4 + nat i)))
                   new_offset (i + 1) len offset)
      else Some buffer)"
  by pat_completeness auto
termination
  by (relation "measure (\<lambda>(buffer, new_offset, i, len, offset). Suc (len div 4) - nat i)") auto

declare int_loop.simps [simp del]

text \<open>
  The loop of the \<open>RANDOM_EACH_BYTE\<close> case:
  \<^verbatim>\<open>while (remaining > 0) {
      int *ptr = (int *)(buffer + i); *ptr = n;
      remaining -= min(sizeof(int), remaining);
      i += min(sizeof(int), remaining); }\<close>
\<close>

function random_loop :: "mem \<Rightarrow> 32 word \<Rightarrow> nat \<Rightarrow> nat \<Rightarrow> mem" where
  "random_loop buffer n i remaining =
     (if remaining > 0
      then (let buffer' = store_int buffer i n;
                remaining' = remaining - min_c 4 remaining;
                i' = i + min_c 4 remaining'
            in random_loop buffer' n i' remaining')
      else buffer)"
  by pat_completeness auto
termination
  by (relation "measure (\<lambda>(buffer, n, i, remaining). remaining)") (simp_all add: min_c_def)

declare random_loop.simps [simp del]

text \<open>
  \<open>generate_data(buffer, len, offset, type, value)\<close>. The C library's \<open>rand\<close> is not
  part of the repository: it is the parameter \<open>rand\<close>, a step on the hidden state of the
  generator, and \<open>generate_data\<close> returns that state with the memory. The result \<open>None\<close>
  is the undefined behaviour of the \<open>PATTERN\<close> loop.
\<close>

definition generate_data ::
    "('r \<Rightarrow> int \<times> 'r) \<Rightarrow> 'r \<Rightarrow> mem \<Rightarrow> nat \<Rightarrow> nat \<Rightarrow> fill_type \<Rightarrow> int \<Rightarrow> (mem \<times> 'r) option" where
  "generate_data rand r buffer len offset type val =
     (case type of
        ONES \<Rightarrow> Some (memset buffer 1 len, r)
      | BYTE_REPEAT \<Rightarrow> Some (memset buffer val len, r)
      | PATTERN \<Rightarrow>
          (let new_offset = 3 - offset mod 4;
               buffer' = pad_loop buffer 0 new_offset
           in (case int_loop buffer' new_offset 0 len offset of
                 None \<Rightarrow> None
               | Some buffer'' \<Rightarrow> Some (buffer'', r)))
      | RANDOM_EACH_BYTE \<Rightarrow>
          (let (n, r') = rand r
           in Some (random_loop buffer (word_of_int n) 0 len, r')))"

text \<open>
  The sample implementation of \<open>rand\<close> in the C standard (ISO C, 7.22.2.2), as one
  instance of the parameter \<open>rand\<close>; the state is the 32-bit \<open>next\<close>.
\<close>

definition rand_iso :: "32 word \<Rightarrow> int \<times> 32 word" where
  "rand_iso next =
     (let next' = next * 1103515245 + 12345
      in (int (unat (next' div 65536) mod 32768), next'))"

section \<open>The C library and the operating system\<close>

subsection \<open>Integer conversions and constants\<close>

text \<open>
  C integers are \<open>int\<close> values here, with the conversions of the source written out:
  \<open>to_uint32\<close> is the conversion to \<open>unsigned int\<close> (also \<open>uid_t\<close>, \<open>mode_t\<close>,
  \<open>useconds_t\<close>), \<open>to_int32\<close> the conversion to \<open>int\<close> as gcc does it.
\<close>

definition to_uint32 :: "int \<Rightarrow> int" where
  "to_uint32 x = x mod 2 ^ 32"

definition to_int32 :: "int \<Rightarrow> int" where
  "to_int32 x = (let m = x mod 2 ^ 32 in if m < 2 ^ 31 then m else m - 2 ^ 32)"

definition LONG_MAX :: int where "LONG_MAX = 2 ^ 63 - 1"
definition LONG_MIN :: int where "LONG_MIN = - (2 ^ 63)"
definition ULONG_MAX :: int where "ULONG_MAX = 2 ^ 64 - 1"

text \<open>\<open>#define PATH_MAX 4096\<close> (also the value of \<open>limits.h\<close> on Linux).\<close>

definition PATH_MAX :: nat where "PATH_MAX = 4096"

text \<open>\<open>#define DEFAULT_INITCAP 16\<close>\<close>

definition DEFAULT_INITCAP :: nat where "DEFAULT_INITCAP = 16"

text \<open>The error numbers and flags of Linux that the source names.\<close>

definition ENOMEM :: int where "ENOMEM = 12"
definition EBUSY :: int where "EBUSY = 16"
definition EEXIST :: int where "EEXIST = 17"
definition ERANGE :: int where "ERANGE = 34"
definition ENAMETOOLONG :: int where "ENAMETOOLONG = 36"
definition O_RDWR :: int where "O_RDWR = 2"
definition SEEK_SET :: int where "SEEK_SET = 0"
definition MS_NOATIME :: int where "MS_NOATIME = 1024"
definition MNT_FORCE :: int where "MNT_FORCE = 1"

text \<open>The globals of the source that never change.\<close>

definition fsys :: string where "fsys = ''jfs''"
definition basepath :: string where "basepath = ''/mnt/test-jfs-i1-s0''"
definition device :: string where "device = ''/dev/ram0''"

text \<open>\<open>unsigned int n_fs = 1;\<close>\<close>

definition n_fs :: int where "n_fs = 1"

subsection \<open>\<open>strtol\<close>, \<open>strtoul\<close>, \<open>strncmp\<close>, \<open>strtok\<close>\<close>

definition isspace :: "char \<Rightarrow> bool" where
  "isspace c = (c \<in> set [CHR '' '', CHR 0x09, CHR 0x0A, CHR 0x0B, CHR 0x0C, CHR 0x0D])"

text \<open>The value of a character as a digit: \<open>0 .. 9\<close>, then the letters in either case.\<close>

definition digit_val :: "char \<Rightarrow> nat option" where
  "digit_val c =
     (let n = (of_char c :: nat)
      in if 48 \<le> n \<and> n \<le> 57 then Some (n - 48)
         else if 97 \<le> n \<and> n \<le> 122 then Some (n - 87)
         else if 65 \<le> n \<and> n \<le> 90 then Some (n - 55)
         else None)"

definition is_digit :: "nat \<Rightarrow> char \<Rightarrow> bool" where
  "is_digit base c = (case digit_val c of Some d \<Rightarrow> d < base | None \<Rightarrow> False)"

text \<open>The digits of the subject sequence, most significant first, up to the first other character.\<close>

fun accum :: "nat \<Rightarrow> nat \<Rightarrow> string \<Rightarrow> nat" where
  "accum base acc [] = acc"
| "accum base acc (c # cs) =
     (case digit_val c of
        Some d \<Rightarrow> if d < base then accum base (acc * base + d) cs else acc
      | None \<Rightarrow> acc)"

text \<open>
  The parse that \<open>strtol\<close> and \<open>strtoul\<close> share: white space, an optional sign, for base
  0 or 16 an optional \<open>0x\<close>, for base 0 a leading \<open>0\<close> for octal; it returns the sign and
  the magnitude (0 when there is no digit).
\<close>

definition strto_parse :: "nat \<Rightarrow> string \<Rightarrow> bool \<times> nat" where
  "strto_parse base s =
     (let s1 = dropWhile isspace s;
          neg = (s1 \<noteq> [] \<and> hd s1 = CHR ''-'');
          s2 = (if s1 \<noteq> [] \<and> (hd s1 = CHR ''-'' \<or> hd s1 = CHR ''+'') then tl s1 else s1);
          hex = ((base = 0 \<or> base = 16) \<and> length s2 \<ge> 3 \<and> hd s2 = CHR ''0''
                  \<and> (s2 ! 1 = CHR ''x'' \<or> s2 ! 1 = CHR ''X'') \<and> is_digit 16 (s2 ! 2));
          base' = (if hex then 16
                   else if base = 0 then (if s2 \<noteq> [] \<and> hd s2 = CHR ''0'' then 8 else 10)
                   else base);
          s3 = (if hex then drop 2 s2 else s2)
      in (neg, accum base' 0 s3))"

text \<open>
  \<open>strtol(s, &endp, base)\<close>: the value, and whether \<open>errno\<close> is set to \<open>ERANGE\<close>.
  The source never reads \<open>endp\<close>.
\<close>

definition strtol :: "nat \<Rightarrow> string \<Rightarrow> int \<times> bool" where
  "strtol base s =
     (let (neg, mag) = strto_parse base s;
          v = (if neg then - int mag else int mag)
      in if v > LONG_MAX then (LONG_MAX, True)
         else if v < LONG_MIN then (LONG_MIN, True)
         else (v, False))"

text \<open>\<open>strtoul\<close>: a negative subject sequence is negated in the type \<open>unsigned long\<close>.\<close>

definition strtoul :: "nat \<Rightarrow> string \<Rightarrow> int \<times> bool" where
  "strtoul base s =
     (let (neg, mag) = strto_parse base s
      in if int mag > ULONG_MAX then (ULONG_MAX, True)
         else if neg then ((- int mag) mod 2 ^ 64, False)
         else (int mag, False))"

text \<open>
  \<open>strncmp(a, b, n) == 0\<close>: the first \<open>n\<close> characters of the two strings, their
  terminators included, are the same.
\<close>

definition strncmp_eq :: "string \<Rightarrow> string \<Rightarrow> nat \<Rightarrow> bool" where
  "strncmp_eq a b n = (take n (map Some a @ [None]) = take n (map Some b @ [None]))"

text \<open>
  \<open>strtok\<close> on the rest of the string it was left with: it skips the delimiters, returns
  \<open>NULL\<close> (\<open>None\<close>) at the end of the string, and otherwise the token up to the next
  delimiter together with what follows that delimiter.
\<close>

definition strtok :: "string \<Rightarrow> string \<Rightarrow> (string \<times> string) option" where
  "strtok s delim =
     (let s' = dropWhile (\<lambda>c. c \<in> set delim) s
      in if s' = [] then None
         else Some (takeWhile (\<lambda>c. c \<notin> set delim) s',
                    drop 1 (dropWhile (\<lambda>c. c \<notin> set delim) s')))"

subsection \<open>\<open>printf\<close> conversions\<close>

definition digit_char :: "nat \<Rightarrow> char" where
  "digit_char d = ''0123456789'' ! d"

function show_nat :: "nat \<Rightarrow> nat \<Rightarrow> string" where
  "show_nat b n =
     (if n < b \<or> b < 2 then [digit_char n] else show_nat b (n div b) @ [digit_char (n mod b)])"
  by pat_completeness auto
termination
  by (relation "measure (\<lambda>(b, n). n)") auto

declare show_nat.simps [simp del]

text \<open>\<open>%d\<close>, \<open>%ld\<close>, \<open>%lu\<close>, \<open>%zu\<close>\<close>

definition show_dec :: "int \<Rightarrow> string" where
  "show_dec i = (if i < 0 then CHR ''-'' # show_nat 10 (nat (- i)) else show_nat 10 (nat i))"

text \<open>\<open>%o\<close> of an \<open>int\<close> or \<open>mode_t\<close> argument\<close>

definition show_oct :: "int \<Rightarrow> string" where
  "show_oct i = show_nat 8 (nat (to_uint32 i))"

subsection \<open>The world outside the program\<close>

text \<open>
  Every call that leaves the program (a system call, an allocation) is answered by the
  environment: \<open>Ok v\<close> is the return value \<open>v\<close>, \<open>Err e\<close> is failure with \<open>errno\<close> set to
  \<open>e\<close>. The answers of one execution are a list, consumed in the order of the calls, so
  that a function of the program is a function of the answers it gets; when the list is
  used up the execution is \<open>Pending\<close>: it goes on, beyond the part that was described.
\<close>

datatype response = Ok int | Err int

datatype call =
    Mount string string string int string
  | Umount2 string int
  | Usleep int
  | Open string int int
  | Close int
  | Lseek int int int
  | Write int "byte list"
  | Creat string int
  | Truncate string int
  | Unlink string
  | Symlink string string
  | Link string string
  | Mkdir string int
  | Rmdir string
  | Setxattr string string string int int
  | Removexattr string string
  | Chown string int int
  | Chmod string int
  | Malloc nat
  | Calloc nat nat
  | Realloc nat
  | Fopen string

datatype event = Sys call response | Stdout string | Stderr string

text \<open>
  How an execution stops before its function returns: \<open>exit(n)\<close>, a failed \<open>assert\<close>
  (\<open>abort\<close>), a store or load through a null pointer, behaviour the C standard leaves
  undefined, or the end of the described answers.
\<close>

datatype stop = Exited int | Aborted | Segfault | Undefined | Pending

record world =
  responses :: "response list"
  trace :: "event list"
  errno :: int

datatype 'a result = Ret 'a world | Stop stop world

definition bind :: "'a result \<Rightarrow> ('a \<Rightarrow> world \<Rightarrow> 'b result) \<Rightarrow> 'b result" where
  "bind m f = (case m of Ret v w \<Rightarrow> f v w | Stop s w \<Rightarrow> Stop s w)"

lemma bind_cong [fundef_cong]:
  "m = m' \<Longrightarrow> (\<And>v w. m' = Ret v w \<Longrightarrow> f v w = f' v w) \<Longrightarrow> bind m f = bind m' f'"
  by (simp add: bind_def split: result.splits)

text \<open>The world in which a result was reached.\<close>

fun world_of :: "'a result \<Rightarrow> world" where
  "world_of (Ret v w) = w"
| "world_of (Stop s w) = w"

text \<open>A call of a function that returns \<open>-1\<close> on failure.\<close>

definition sys :: "call \<Rightarrow> world \<Rightarrow> int result" where
  "sys c w =
     (case responses w of
        [] \<Rightarrow> Stop Pending w
      | r # rs \<Rightarrow>
          (case r of
             Ok v \<Rightarrow> Ret v (w\<lparr>responses := rs, trace := trace w @ [Sys c r]\<rparr>)
           | Err e \<Rightarrow> Ret (- 1) (w\<lparr>responses := rs, trace := trace w @ [Sys c r], errno := e\<rparr>)))"

text \<open>An allocation: \<open>True\<close> when the pointer returned is not \<open>NULL\<close>.\<close>

definition alloc :: "call \<Rightarrow> world \<Rightarrow> bool result" where
  "alloc c w =
     (case responses w of
        [] \<Rightarrow> Stop Pending w
      | r # rs \<Rightarrow>
          (case r of
             Ok v \<Rightarrow> Ret (v \<noteq> 0) (w\<lparr>responses := rs, trace := trace w @ [Sys c r]\<rparr>)
           | Err e \<Rightarrow> Ret False (w\<lparr>responses := rs, trace := trace w @ [Sys c r], errno := e\<rparr>)))"

definition out :: "event \<Rightarrow> world \<Rightarrow> unit result" where
  "out e w = Ret () (w\<lparr>trace := trace w @ [e]\<rparr>)"

section \<open>The record store and the tokenizer\<close>

text \<open>
  \<open>struct vector\<close>. The elements are kept as a list of the \<open>len\<close> elements stored so far;
  \<open>vec_data = None\<close> is the null pointer that a failed \<open>calloc\<close> leaves in \<open>data\<close>.
\<close>

record 'a vector =
  vec_data :: "'a list option"
  vec_unitsize :: nat
  vec_len :: nat
  vec_capacity :: nat

text \<open>\<open>_vector_init(vec, unitsize, initcap)\<close>\<close>

definition vector_init :: "nat \<Rightarrow> nat \<Rightarrow> world \<Rightarrow> 'a vector result" where
  "vector_init unitsize initcap w =
     (let initcap' = (if initcap < DEFAULT_INITCAP then DEFAULT_INITCAP else initcap)
      in bind (alloc (Calloc initcap' unitsize) w) (\<lambda>ok w.
           Ret \<lparr>vec_data = (if ok then Some [] else None), vec_unitsize = unitsize,
                 vec_len = 0, vec_capacity = initcap'\<rparr> w))"

text \<open>\<open>vector_expand(vec)\<close>: the return value and the vector.\<close>

definition vector_expand :: "'a vector \<Rightarrow> world \<Rightarrow> (int \<times> 'a vector) result" where
  "vector_expand vec w =
     (let newcap = vec_unitsize vec * vec_capacity vec * 2
      in bind (alloc (Realloc newcap) w) (\<lambda>ok w.
           if \<not> ok then Ret (ENOMEM, vec) w
           else Ret (0, vec\<lparr>vec_data := Some (case vec_data vec of None \<Rightarrow> [] | Some xs \<Rightarrow> xs),
                              vec_capacity := vec_capacity vec * 2\<rparr>) w))"

text \<open>
  \<open>vector_add(vec, el)\<close>: the return value and the vector. The \<open>memcpy\<close> into a null
  \<open>data\<close> is a store through a null pointer.
\<close>

definition vector_add :: "'a vector \<Rightarrow> 'a \<Rightarrow> world \<Rightarrow> (int \<times> 'a vector) result" where
  "vector_add vec el w =
     bind (if vec_len vec \<ge> vec_capacity vec then vector_expand vec w else Ret (0, vec) w)
       (\<lambda>(ret, vec) w.
          if ret \<noteq> 0 then Ret (ret, vec) w
          else (case vec_data vec of
                  None \<Rightarrow> Stop Segfault w
                | Some xs \<Rightarrow> Ret (0, vec\<lparr>vec_data := Some (xs @ [el]),
                                            vec_len := vec_len vec + 1\<rparr>) w))"

text \<open>\<open>_vector_get(vec, index)\<close>: \<open>None\<close> is \<open>NULL\<close>.\<close>

definition vector_get :: "'a vector \<Rightarrow> nat \<Rightarrow> 'a option" where
  "vector_get vec index =
     (if index \<ge> vec_len vec then None
      else (case vec_data vec of None \<Rightarrow> None | Some xs \<Rightarrow> Some (xs ! index)))"

text \<open>\<open>*vector_get(vec, char *, index)\<close>: the load through the pointer returned.\<close>

definition field :: "string vector \<Rightarrow> nat \<Rightarrow> world \<Rightarrow> string result" where
  "field vec index w = (case vector_get vec index of None \<Rightarrow> Stop Segfault w | Some s \<Rightarrow> Ret s w)"

text \<open>
  The loop of \<open>extract_fields\<close>, entered with the result of the last \<open>strtok\<close>:
  \<^verbatim>\<open>while (field) {
      size_t flen = strlen(field);
      char *field_copy = malloc(flen + 1);
      assert(field_copy);
      field_copy[flen] = '\0';
      strncpy(field_copy, field, flen);
      vector_add(fields_vec, &field_copy);
      field = strtok(NULL, ", "); }\<close>
  The value that \<open>vector_add\<close> returns is dropped, as in the source.
\<close>

lemma strtok_shorter:
  assumes "strtok s delim = Some (t, r)"
  shows "length r < length s"
proof -
  define s' where "s' = dropWhile (\<lambda>c. c \<in> set delim) s"
  from assms have ne: "s' \<noteq> []"
    and r: "r = drop 1 (dropWhile (\<lambda>c. c \<notin> set delim) s')"
    by (auto simp: strtok_def s'_def Let_def split: if_splits)
  from ne have "hd s' \<notin> set delim"
    unfolding s'_def by (rule hd_dropWhile)
  with ne have "dropWhile (\<lambda>c. c \<notin> set delim) s' = dropWhile (\<lambda>c. c \<notin> set delim) (tl s')"
    by (cases s') simp_all
  moreover have "length (dropWhile (\<lambda>c. c \<notin> set delim) (tl s')) \<le> length s' - 1"
    using length_dropWhile_le [of "\<lambda>c. c \<notin> set delim" "tl s'"] by simp
  ultimately have "length (dropWhile (\<lambda>c. c \<notin> set delim) s') \<le> length s' - 1"
    by (simp only:)
  moreover from ne have "0 < length s'"
    by simp
  moreover have "length r = length (dropWhile (\<lambda>c. c \<notin> set delim) s') - 1"
    by (simp add: r)
  ultimately have "length r < length s'"
    by arith
  also have "length s' \<le> length s"
    unfolding s'_def by (rule length_dropWhile_le)
  finally show ?thesis .
qed

function fields_loop ::
    "string vector \<Rightarrow> (string \<times> string) option \<Rightarrow> world \<Rightarrow> string vector result" where
  "fields_loop vec None w = Ret vec w"
| "fields_loop vec (Some (fld, rest)) w =
     bind (alloc (Malloc (length fld + 1)) w) (\<lambda>field_copy w.
       if \<not> field_copy then Stop Aborted w
       else bind (vector_add vec fld w) (\<lambda>(ret, vec) w.
              fields_loop vec (strtok rest '', '') w))"
  by pat_completeness auto
termination
proof (relation "measure (\<lambda>(vec, t, w). case t of None \<Rightarrow> 0 | Some (fld, rest) \<Rightarrow> Suc (length rest))")
  show "wf (measure (\<lambda>(vec, t, w). case t of None \<Rightarrow> 0 | Some (fld, rest) \<Rightarrow> Suc (length rest)))"
    by simp
next
  fix vec xc :: "string vector" and fld rest :: string and w wa :: world
  show "((xc, strtok rest '', '', wa), vec, Some (fld, rest), w)
       \<in> measure (\<lambda>(vec, t, w). case t of None \<Rightarrow> 0 | Some (fld, rest) \<Rightarrow> Suc (length rest))"
    by (cases "strtok rest '', ''") (auto dest: strtok_shorter)
qed

declare fields_loop.simps [simp del]

text \<open>\<open>extract_fields(fields_vec, line, delim)\<close>; a \<open>char *\<close> has 8 bytes.\<close>

definition extract_fields :: "string \<Rightarrow> string \<Rightarrow> world \<Rightarrow> string vector result" where
  "extract_fields line delim w =
     bind (vector_init 8 DEFAULT_INITCAP w) (\<lambda>vec w.
       fields_loop vec (strtok line delim) w)"

section \<open>The operations\<close>

text \<open>
  What the program takes from its surroundings without a call: the table of
  \<open>strerror\<close>, the C library's random number generator and its state, the bytes that
  freshly allocated memory holds, and the value that the uninitialised variable
  \<open>failpos\<close> of \<open>mountall\<close> happens to have.
\<close>

record 'r env =
  strerror :: "int \<Rightarrow> string"
  rand :: "'r \<Rightarrow> int \<times> 'r"
  rand_state :: 'r
  heap :: mem
  failpos :: int

definition nl :: string where
  "nl = [CHR 0x0A]"

text \<open>A call of \<open>strtol\<close> or \<open>strtoul\<close> in the world: the value, and \<open>errno\<close> set on overflow.\<close>

definition conv :: "int \<times> bool \<Rightarrow> world \<Rightarrow> int \<times> world" where
  "conv r w = (fst r, if snd r then w\<lparr>errno := ERANGE\<rparr> else w)"

text \<open>\<open>create_file(path, flags, mode)\<close>\<close>

definition create_file :: "string \<Rightarrow> int \<Rightarrow> int \<Rightarrow> world \<Rightarrow> int result" where
  "create_file path flags mode w =
     bind (sys (Open path flags mode) w) (\<lambda>fd w.
       if fd \<ge> 0 then bind (sys (Close fd) w) (\<lambda>_ w. Ret 0 w)
       else Ret (- 1) w)"

text \<open>
  \<open>write_file(path, flags, data, offset, length)\<close>; \<open>data\<close> is the memory at the buffer,
  of which \<open>write\<close> is given the first \<open>length\<close> bytes (the parameter \<open>length'\<close>).
\<close>

definition write_file :: "string \<Rightarrow> int \<Rightarrow> mem \<Rightarrow> int \<Rightarrow> nat \<Rightarrow> world \<Rightarrow> int result" where
  "write_file path flags data offset length' w =
     bind (sys (Open path flags O_RDWR) w) (\<lambda>fd w.
       if fd < 0 then Ret (- 1) w
       else bind (sys (Lseek fd offset SEEK_SET) w) (\<lambda>res w.
         if res = - 1
         then (let err = errno w
               in bind (sys (Close fd) w) (\<lambda>_ w. Ret (- 1) (w\<lparr>errno := err\<rparr>)))
         else bind (sys (Write fd (map data [0 ..< length'])) w) (\<lambda>writesz w.
           if writesz < 0
           then (let err = errno w
                 in bind (sys (Close fd) w) (\<lambda>_ w. Ret (- 1) (w\<lparr>errno := err\<rparr>)))
           else bind (if writesz < int length'
                      then out (Stderr (''Note: less data written than expected (''
                             @ show_dec writesz @ '' < '' @ show_dec (int length') @ '')'' @ nl)) w
                      else Ret () w) (\<lambda>_ w.
                  bind (sys (Close fd) w) (\<lambda>_ w. Ret writesz w)))))"

text \<open>The tail that the handlers share: \<open>printf\<close> of the result line, \<open>return ret\<close>.\<close>

definition report :: "string \<Rightarrow> int \<Rightarrow> string \<Rightarrow> world \<Rightarrow> int result" where
  "report call_text ret err_text w =
     bind (out (Stdout (call_text @ '' -> ret='' @ show_dec ret @ '', errno='' @ err_text @ nl)) w)
       (\<lambda>_ w. Ret ret w)"

definition do_create_file :: "'r env \<Rightarrow> string vector \<Rightarrow> world \<Rightarrow> int result" where
  "do_create_file env argvec w =
     bind (field argvec 1 w) (\<lambda>filepath w.
     bind (field argvec 2 w) (\<lambda>flagstr w.
     bind (field argvec 3 w) (\<lambda>modestr w.
       let (fl, w) = conv (strtol 8 flagstr) w; flags = to_int32 fl;
           (md, w) = conv (strtol 8 modestr) w; mode = to_int32 md
       in bind (create_file filepath flags mode w) (\<lambda>res w.
            report (''create_file('' @ filepath @ '', 0'' @ show_oct flags @ '', 0''
                      @ show_oct mode @ '')'') res (strerror env (errno w)) w))))"

text \<open>
  \<open>do_write_file(argvec, seq)\<close>, with the global \<open>n_fs\<close> as the parameter \<open>nfs\<close>.
  In \<open>seq / n_fs\<close> the \<open>int\<close> \<open>seq\<close> is converted to \<open>unsigned int\<close>, and the quotient
  back to \<open>int\<close>; a division by \<open>0\<close> is undefined. The buffer is filled by
  \<open>generate_data\<close> under \<open>BYTE_REPEAT\<close>, which always returns.
\<close>

definition do_write_file :: "'r env \<Rightarrow> int \<Rightarrow> string vector \<Rightarrow> int \<Rightarrow> world \<Rightarrow> int result" where
  "do_write_file env nfs argvec seq w =
     bind (field argvec 1 w) (\<lambda>filepath w.
     bind (field argvec 2 w) (\<lambda>flagstr w.
     bind (field argvec 4 w) (\<lambda>offset_str w.
     bind (field argvec 5 w) (\<lambda>len_str w.
       let (fl, w) = conv (strtol 8 flagstr) w; flags = to_int32 fl;
           (offset, w) = conv (strtol 10 offset_str) w;
           (writelen, w) = conv (strtoul 10 len_str) w
       in if offset = LONG_MAX then Stop Aborted w
          else if writelen = ULONG_MAX then Stop Aborted w
          else bind (alloc (Malloc (nat writelen)) w) (\<lambda>buffer_ok w.
            if \<not> buffer_ok then Stop Aborted w
            else if to_uint32 nfs = 0 then Stop Undefined w
            else
              let integer_to_write = to_int32 (to_uint32 seq div to_uint32 nfs)
              in (case generate_data (rand env) (rand_state env) (heap env)
                        (nat writelen) (nat (offset mod 2 ^ 64)) BYTE_REPEAT integer_to_write of
                    None \<Rightarrow> Stop Undefined w
                  | Some (buffer, _) \<Rightarrow>
                      bind (write_file filepath flags buffer offset (nat writelen) w) (\<lambda>r w.
                        let ret = to_int32 r; err = errno w
                        in report (''write_file('' @ filepath @ '', '' @ show_oct flags @ '', ''
                                     @ show_dec offset @ '', '' @ show_dec writelen @ '')'')
                             ret (strerror env err) w)))))))"

definition do_truncate :: "'r env \<Rightarrow> string vector \<Rightarrow> world \<Rightarrow> int result" where
  "do_truncate env argvec w =
     bind (field argvec 1 w) (\<lambda>filepath w.
     bind (field argvec 2 w) (\<lambda>len_str w.
       let (flen, w) = conv (strtol 10 len_str) w
       in bind (sys (Truncate filepath flen) w) (\<lambda>ret w.
            report (''truncate('' @ filepath @ '', '' @ show_dec flen @ '')'')
              ret (strerror env (errno w)) w)))"

definition do_unlink :: "'r env \<Rightarrow> string vector \<Rightarrow> world \<Rightarrow> int result" where
  "do_unlink env argvec w =
     bind (field argvec 1 w) (\<lambda>path w.
       bind (sys (Unlink path) w) (\<lambda>ret w.
         report (''unlink('' @ path @ '')'') ret (strerror env (errno w)) w))"

definition do_symlink :: "'r env \<Rightarrow> string vector \<Rightarrow> world \<Rightarrow> int result" where
  "do_symlink env argvec w =
     bind (field argvec 1 w) (\<lambda>srcpath w.
     bind (field argvec 2 w) (\<lambda>dstpath w.
       bind (sys (Symlink srcpath dstpath) w) (\<lambda>ret w.
         report (''symlink('' @ srcpath @ '', '' @ dstpath @ '')'')
           ret (strerror env (errno w)) w)))"

definition do_link :: "'r env \<Rightarrow> string vector \<Rightarrow> world \<Rightarrow> int result" where
  "do_link env argvec w =
     bind (field argvec 1 w) (\<lambda>srcpath w.
     bind (field argvec 2 w) (\<lambda>dstpath w.
       bind (sys (Link srcpath dstpath) w) (\<lambda>ret w.
         report (''link('' @ srcpath @ '', '' @ dstpath @ '')'')
           ret (strerror env (errno w)) w)))"

definition do_mkdir :: "'r env \<Rightarrow> string vector \<Rightarrow> world \<Rightarrow> int result" where
  "do_mkdir env argvec w =
     bind (field argvec 1 w) (\<lambda>path w.
     bind (field argvec 2 w) (\<lambda>modestr w.
       let (md, w) = conv (strtol 8 modestr) w; mode = to_int32 md
       in bind (sys (Mkdir path mode) w) (\<lambda>ret w.
            report (''mkdir('' @ path @ '', 0'' @ show_oct mode @ '')'')
              ret (strerror env (errno w)) w)))"

definition do_rmdir :: "'r env \<Rightarrow> string vector \<Rightarrow> world \<Rightarrow> int result" where
  "do_rmdir env argvec w =
     bind (field argvec 1 w) (\<lambda>path w.
       bind (sys (Rmdir path) w) (\<lambda>ret w.
         report (''rmdir('' @ path @ '')'') ret (strerror env (errno w)) w))"

definition do_setxattr :: "'r env \<Rightarrow> string vector \<Rightarrow> world \<Rightarrow> int result" where
  "do_setxattr env argvec w =
     bind (field argvec 1 w) (\<lambda>path w.
     bind (field argvec 2 w) (\<lambda>attr_name w.
     bind (field argvec 3 w) (\<lambda>attr_value w.
     bind (field argvec 4 w) (\<lambda>size w.
     bind (field argvec 5 w) (\<lambda>flag w.
       let (attr_size, w) = conv (strtoul 10 size) w;
           (fv, w) = conv (strtol 0 flag) w; flag_val = to_int32 fv
       in bind (sys (Setxattr path attr_name attr_value attr_size flag_val) w) (\<lambda>ret w.
            report (''setxattr('' @ path @ '', '' @ attr_name @ '', '' @ attr_value @ '', ''
                      @ show_dec attr_size @ '', '' @ show_dec flag_val @ '')'')
              ret (strerror env (errno w)) w))))))"

definition do_removexattr :: "'r env \<Rightarrow> string vector \<Rightarrow> world \<Rightarrow> int result" where
  "do_removexattr env argvec w =
     bind (field argvec 1 w) (\<lambda>path w.
     bind (field argvec 2 w) (\<lambda>attr_name w.
       bind (sys (Removexattr path attr_name) w) (\<lambda>ret w.
         report (''removexattr('' @ path @ '', '' @ attr_name @ '')'')
           ret (strerror env (errno w)) w)))"

text \<open>\<open>chown(path, uid, -1)\<close>: the \<open>-1\<close> is converted to \<open>gid_t\<close>.\<close>

definition do_chown :: "'r env \<Rightarrow> string vector \<Rightarrow> world \<Rightarrow> int result" where
  "do_chown env argvec w =
     bind (field argvec 1 w) (\<lambda>path w.
     bind (field argvec 2 w) (\<lambda>owner_name w.
       let (u, w) = conv (strtoul 10 owner_name) w; uid = to_uint32 u
       in bind (sys (Chown path uid (to_uint32 (- 1))) w) (\<lambda>ret w.
            report (''chown('' @ path @ '', '' @ show_dec (to_int32 uid) @ '')'')
              ret (strerror env (errno w)) w)))"

definition do_chgrp :: "'r env \<Rightarrow> string vector \<Rightarrow> world \<Rightarrow> int result" where
  "do_chgrp env argvec w =
     bind (field argvec 1 w) (\<lambda>path w.
     bind (field argvec 2 w) (\<lambda>group_name w.
       let (g, w) = conv (strtoul 10 group_name) w; gid = to_uint32 g
       in bind (sys (Chown path (to_uint32 (- 1)) gid) w) (\<lambda>ret w.
            report (''chgrp('' @ path @ '', '' @ show_dec (to_int32 gid) @ '')'')
              ret (strerror env (errno w)) w)))"

definition do_chmod :: "'r env \<Rightarrow> string vector \<Rightarrow> world \<Rightarrow> int result" where
  "do_chmod env argvec w =
     bind (field argvec 1 w) (\<lambda>path w.
     bind (field argvec 2 w) (\<lambda>mode_val w.
       let (md, w) = conv (strtol 8 mode_val) w; mode = to_uint32 md
       in bind (sys (Chmod path mode) w) (\<lambda>ret w.
            report (''chmod('' @ path @ '', 0'' @ show_oct mode @ '')'')
              ret (strerror env (errno w)) w)))"

text \<open>
  The chain of \<open>strncmp(funcname, "...", len) == 0\<close> tests in \<open>main\<close>, in the order of
  the source; \<open>len\<close> is the length that \<open>getline\<close> returned for the line.
\<close>

definition dispatch ::
    "'r env \<Rightarrow> int \<Rightarrow> string vector \<Rightarrow> string \<Rightarrow> nat \<Rightarrow> int \<Rightarrow> world \<Rightarrow> int result" where
  "dispatch env nfs argvec funcname len seq w =
     (if strncmp_eq funcname ''create_file'' len then do_create_file env argvec w
      else if strncmp_eq funcname ''write_file'' len then do_write_file env nfs argvec seq w
      else if strncmp_eq funcname ''truncate'' len then do_truncate env argvec w
      else if strncmp_eq funcname ''mkdir'' len then do_mkdir env argvec w
      else if strncmp_eq funcname ''rmdir'' len then do_rmdir env argvec w
      else if strncmp_eq funcname ''symlink'' len then do_symlink env argvec w
      else if strncmp_eq funcname ''link'' len then do_link env argvec w
      else if strncmp_eq funcname ''unlink'' len then do_unlink env argvec w
      else if strncmp_eq funcname ''chmod'' len then do_chmod env argvec w
      else if strncmp_eq funcname ''chgrp_file'' len then do_chgrp env argvec w
      else if strncmp_eq funcname ''chown_file'' len then do_chown env argvec w
      else if strncmp_eq funcname ''removexattr'' len then do_removexattr env argvec w
      else if strncmp_eq funcname ''setxattr'' len then do_setxattr env argvec w
      else bind (out (Stdout (''Unrecognized op: '' @ funcname @ nl)) w) (\<lambda>_ w. Ret 0 w))"

section \<open>The mount-lifecycle controller\<close>

text \<open>\<open>for (int i = 0; i < failpos; ++i) umount2(basepath, MNT_FORCE);\<close>\<close>

primrec undo_mounts :: "nat \<Rightarrow> world \<Rightarrow> unit result" where
  "undo_mounts 0 w = Ret () w"
| "undo_mounts (Suc n) w = bind (sys (Umount2 basepath MNT_FORCE) w) (\<lambda>_ w. undo_mounts n w)"

text \<open>\<open>mountall()\<close>\<close>

definition mountall :: "'r env \<Rightarrow> world \<Rightarrow> unit result" where
  "mountall env w =
     bind (sys (Mount device basepath fsys MS_NOATIME []) w) (\<lambda>ret w.
       if ret \<noteq> 0
       then (let err = errno w
             in bind (undo_mounts (nat (failpos env)) w) (\<lambda>_ w.
                bind (out (Stderr (''Could not mount file system '' @ fsys @ '' in '' @ device
                        @ '' at '' @ basepath @ '' ('' @ strerror env err @ '')'' @ nl)) w) (\<lambda>_ w.
                Stop (Exited 1) w)))
       else Ret () w)"

text \<open>
  The retry loop of \<open>unmount_all\<close>; it returns \<open>retry_limit\<close> and \<open>has_failure\<close> as they
  are when the loop is left. \<open>waitms\<close> is a \<open>useconds_t\<close>, and so is the argument
  \<open>1000 * waitms\<close> of \<open>usleep\<close>: an \<open>unsigned int\<close> of 32 bits.
\<close>

function unmount_loop :: "'r env \<Rightarrow> int \<Rightarrow> int \<Rightarrow> bool \<Rightarrow> world \<Rightarrow> (int \<times> bool) result" where
  "unmount_loop env retry_limit num_retries has_failure w =
     (if retry_limit > 0
      then bind (sys (Umount2 basepath 0) w) (\<lambda>ret w.
        if ret = 0 then Ret (retry_limit, has_failure) w
        else if errno w = EBUSY
        then (let waitms = to_uint32 (100 * 2 ^ nat num_retries)
              in bind (out (Stderr (''File system '' @ fsys @ '' mounted on '' @ basepath
                        @ '' is busy. Retry '' @ show_dec (num_retries + 1)
                        @ '' times,unmounting after '' @ show_dec (to_int32 waitms)
                        @ ''ms.'' @ nl)) w) (\<lambda>_ w.
                 bind (sys (Usleep (to_uint32 (1000 * waitms))) w) (\<lambda>_ w.
                 unmount_loop env (retry_limit - 1) (num_retries + 1) has_failure w)))
        else bind (out (Stderr (''Could not unmount file system '' @ fsys @ '' at '' @ basepath
                     @ '' ('' @ strerror env (errno w) @ '')'' @ nl)) w) (\<lambda>_ w.
               unmount_loop env retry_limit num_retries True w))
      else Ret (retry_limit, has_failure) w)"
  by pat_completeness auto
termination
proof (relation "measure (\<lambda>(env, retry_limit, num_retries, has_failure, w). length (responses w))")
  show "wf (measure (\<lambda>(env :: 'r env, retry_limit :: int, num_retries :: int, has_failure :: bool, w).
    length (responses w)))"
    by simp
qed (auto simp: sys_def out_def split: list.splits response.splits)

declare unmount_loop.simps [simp del]

text \<open>\<open>unmount_all(strict)\<close>\<close>

definition unmount_all :: "'r env \<Rightarrow> bool \<Rightarrow> world \<Rightarrow> unit result" where
  "unmount_all env strict w =
     bind (unmount_loop env 19 0 False w) (\<lambda>(retry_limit, has_failure) w.
       bind (if retry_limit = 0
             then bind (out (Stderr (''Failed to unmount file system '' @ fsys @ '' at ''
                          @ basepath @ '' after retries.'' @ nl)) w) (\<lambda>_ w. Ret True w)
             else Ret has_failure w) (\<lambda>has_failure w.
         if has_failure \<and> strict then Stop (Exited 1) w else Ret () w))"

section \<open>The bootstrap\<close>

text \<open>
  The loop of \<open>mkdir_p\<close> over the characters of the path from index \<open>1\<close> on; \<open>None\<close> is
  the \<open>return -1\<close> inside the loop, otherwise the loop leaves \<open>next_f\<close> and \<open>next_d\<close>.
  The path that \<open>mkdir\<close> gets is \<open>_path\<close> cut at \<open>p\<close>; \<open>*(p + 1)\<close> behind the last
  character is the terminator.
\<close>

function mkdir_loop ::
    "string \<Rightarrow> int \<Rightarrow> nat \<Rightarrow> bool \<Rightarrow> bool \<Rightarrow> world \<Rightarrow> (bool \<times> bool) option result" where
  "mkdir_loop path dir_mode p next_f next_d w =
     (if p < length path
      then (if path ! p = CHR ''/''
            then bind (sys (Mkdir (take p path) dir_mode) w) (\<lambda>ret w.
              if ret \<noteq> 0 \<and> errno w \<noteq> EEXIST then Ret None w
              else if p + 1 < length path \<and> path ! (p + 1) = CHR ''f''
              then mkdir_loop path dir_mode (p + 1) True next_d w
              else if p + 1 < length path \<and> path ! (p + 1) = CHR ''d''
              then mkdir_loop path dir_mode (p + 1) next_f True w
              else mkdir_loop path dir_mode (p + 1) next_f next_d w)
            else mkdir_loop path dir_mode (p + 1) next_f next_d w)
      else Ret (Some (next_f, next_d)) w)"
  by pat_completeness auto
termination
  by (relation "measure (\<lambda>(path, dir_mode, p, next_f, next_d, w). length path - p)") auto

declare mkdir_loop.simps [simp del]

text \<open>
  \<open>mkdir_p(path, dir_mode, file_mode)\<close>. With the empty path the loop starts behind the
  terminator, in the part of \<open>_path\<close> that was never written.
\<close>

definition mkdir_p :: "string \<Rightarrow> int \<Rightarrow> int \<Rightarrow> world \<Rightarrow> int result" where
  "mkdir_p path dir_mode file_mode w0 =
     (let len = length path;
          w = w0\<lparr>errno := 0\<rparr>
      in if len > PATH_MAX - 1 then Ret (- 1) (w\<lparr>errno := ENAMETOOLONG\<rparr>)
         else if len = 0 then Stop Undefined w
         else bind (mkdir_loop path dir_mode 1 False False w) (\<lambda>r w.
           case r of
             None \<Rightarrow> Ret (- 1) w
           | Some (next_f, next_d) \<Rightarrow>
               bind (if next_f
                     then bind (sys (Creat path file_mode) w) (\<lambda>fd w.
                            if fd \<ge> 0 then bind (sys (Close fd) w) (\<lambda>_ w. Ret True w)
                            else Ret (errno w = EEXIST) w)
                     else Ret True w) (\<lambda>ok w.
                 if \<not> ok then Ret (- 1) w
                 else bind (if next_d
                            then bind (sys (Mkdir path dir_mode) w) (\<lambda>ret w.
                                   Ret (\<not> (ret \<noteq> 0 \<and> errno w \<noteq> EEXIST)) w)
                            else Ret True w) (\<lambda>ok w.
                        if \<not> ok then Ret (- 1) w else Ret 0 w))))"

section \<open>The replay driver\<close>

text \<open>
  The replay loop of \<open>main\<close>. The lines are what \<open>getline\<close> returns, one after the
  other, until it returns \<open>-1\<close>: each with its newline, but for a last line that has
  none. The loop returns the sequence counter. The counter is the \<open>int\<close> \<open>seq\<close>, and
  \<open>seq++\<close>, which stands between the dispatch and the unmount, is undefined at
  \<open>INT_MAX\<close>.
\<close>

fun replay_loop :: "'r env \<Rightarrow> int \<Rightarrow> string list \<Rightarrow> int \<Rightarrow> world \<Rightarrow> int result" where
  "replay_loop env nfs [] seq w = Ret seq w"
| "replay_loop env nfs (linebuf # rest) seq w =
     (let len = length linebuf
      in if len = 0 then Stop Undefined w
         else bind (alloc (Malloc (len + 1)) w) (\<lambda>line_ok w.
           if \<not> line_ok then Stop Segfault w
           else
             let line = (if last linebuf = CHR 0x0A then butlast linebuf else linebuf)
             in bind (out (Stdout (''seq='' @ show_dec seq @ '' '' @ nl)) w) (\<lambda>_ w.
                bind (extract_fields line '', '' w) (\<lambda>argvec w.
                bind (field argvec 0 w) (\<lambda>funcname w.
                bind (mountall env w) (\<lambda>_ w.
                bind (dispatch env nfs argvec funcname len seq w) (\<lambda>_ w.
                  if seq = INT_MAX then Stop Undefined w
                  else bind (unmount_all env True w) (\<lambda>_ w.
                         replay_loop env nfs rest (seq + 1) (w\<lparr>errno := 0\<rparr>)))))))))"

declare replay_loop.simps [simp del]

text \<open>
  The bootstrap loop of \<open>main\<close> over \<open>file_dir_array\<close>; \<open>0755\<close> is 493 and \<open>0644\<close> is 420.
  The result of \<open>calloc\<close> is not checked: \<open>snprintf\<close> stores through it. The counter
  is the \<open>int\<close> \<open>pre\<close>, and \<open>pre++\<close> is undefined at \<open>INT_MAX\<close>.
\<close>

fun bootstrap_loop :: "string list \<Rightarrow> int \<Rightarrow> world \<Rightarrow> int result" where
  "bootstrap_loop [] pre w = Ret pre w"
| "bootstrap_loop (line # rest) pre w =
     bind (out (Stdout (''pre='' @ show_dec pre @ '' '' @ nl)) w) (\<lambda>_ w.
       let pre_path_name = basepath @ line
       in bind (alloc (Calloc 1 (length pre_path_name + 1)) w) (\<lambda>ok w.
            if \<not> ok then Stop Segfault w
            else bind (out (Stdout (''pre_path_name='' @ pre_path_name @ nl)) w) (\<lambda>_ w.
                 bind (mkdir_p pre_path_name 493 420 w) (\<lambda>ret w.
                   if ret < 0
                   then bind (out (Stderr (''mkdir_p error happened!'' @ nl)) w)
                          (\<lambda>_ w. Stop (Exited 1) w)
                   else if pre = INT_MAX then Stop Undefined w
                   else bootstrap_loop rest (pre + 1) w))))"

declare bootstrap_loop.simps [simp del]

definition file_dir_array :: "string list" where
  "file_dir_array = [''/d-01'', ''/d-01/f-00'', ''/d-00/d-01'', ''/d-01/d-01'']"

definition sequence_log_file_name :: string where
  "sequence_log_file_name = ''jfs_op_sequence.log''"

text \<open>\<open>main\<close>, on the lines of the log; its result is the exit code.\<close>

definition main :: "'r env \<Rightarrow> string list \<Rightarrow> world \<Rightarrow> int result" where
  "main env lines w =
     bind (alloc (Fopen sequence_log_file_name) w) (\<lambda>seqfp w.
       if \<not> seqfp
       then bind (out (Stdout (''Cannot open '' @ sequence_log_file_name @ ''. Does it exist?''
                    @ nl)) w) (\<lambda>_ w. Stop (Exited 1) w)
       else bind (mountall env w) (\<lambda>_ w.
            bind (bootstrap_loop file_dir_array 0 w) (\<lambda>_ w.
            bind (unmount_all env True w) (\<lambda>_ w.
            bind (replay_loop env n_fs lines 0 w) (\<lambda>_ w. Ret 0 w)))))"

section \<open>Observing an execution\<close>

text \<open>The world at the start of an execution that gets the answers \<open>rs\<close>.\<close>

definition world0 :: "response list \<Rightarrow> world" where
  "world0 rs = \<lparr>responses = rs, trace = [], errno = 0\<rparr>"

text \<open>
  One instance of the surroundings, for the executions that are evaluated below: the
  messages of \<open>strerror\<close> on Linux for the error numbers that occur, the generator of
  the C standard at seed 1, zeroed memory, and \<open>failpos = 0\<close>.
\<close>

definition strerror_linux :: "int \<Rightarrow> string" where
  "strerror_linux e =
     (if e = 0 then ''Success''
      else if e = 2 then ''No such file or directory''
      else if e = 12 then ''Cannot allocate memory''
      else if e = 16 then ''Device or resource busy''
      else if e = 17 then ''File exists''
      else if e = 22 then ''Invalid argument''
      else ''Unknown error '' @ show_dec e)"

definition env0 :: "(32 word) env" where
  "env0 = \<lparr>strerror = strerror_linux, rand = rand_iso, rand_state = 1,
           heap = (\<lambda>_. 0), failpos = 0\<rparr>"

text \<open>The answers to the calls of \<open>umount2\<close>, the arguments of \<open>usleep\<close> (in
  microseconds) and the offsets of \<open>lseek\<close> in a trace, in their order.\<close>

definition umount_calls :: "event list \<Rightarrow> response list" where
  "umount_calls es = concat (map (\<lambda>e. case e of Sys (Umount2 p f) r \<Rightarrow> [r] | _ \<Rightarrow> []) es)"

definition sleeps :: "event list \<Rightarrow> int list" where
  "sleeps es = concat (map (\<lambda>e. case e of Sys (Usleep u) r \<Rightarrow> [u] | _ \<Rightarrow> []) es)"

definition lseek_offsets :: "event list \<Rightarrow> int list" where
  "lseek_offsets es = concat (map (\<lambda>e. case e of Sys (Lseek fd off wh) r \<Rightarrow> [off] | _ \<Rightarrow> []) es)"

text \<open>The answers of an \<open>umount2\<close> that is busy \<open>k\<close> times, each time followed by a
  \<open>usleep\<close> that returns \<open>0\<close>.\<close>

definition busy :: "nat \<Rightarrow> response list" where
  "busy k = concat (replicate k [Err EBUSY, Ok 0])"

text \<open>
  A log of two records, and the answers of one execution of the driver on it: \<open>fopen\<close>
  and every allocation succeed; the bootstrap finds \<open>/mnt\<close>, the mount point and what
  it has created before (\<open>EEXIST\<close>, 17); the directory of the second record does not
  exist (\<open>ENOENT\<close>, 2), and the unmount behind it finds the file system busy once
  (\<open>EBUSY\<close>, 16).
\<close>

definition example_log :: "string list" where
  "example_log = [''mkdir, /f, 0755'' @ nl, ''rmdir, /g'' @ nl]"

definition example_answers :: "response list" where
  "example_answers =
     [Ok 1, Ok 0,
      Ok 1, Err 17, Err 17, Ok 0,
      Ok 1, Err 17, Err 17, Err 17, Ok 3, Ok 0, Err 17,
      Ok 1, Err 17, Err 17, Ok 0, Ok 0,
      Ok 1, Err 17, Err 17, Err 17, Ok 0,
      Ok 0,
      Ok 1, Ok 1, Ok 1, Ok 1, Ok 1, Ok 0, Ok 0, Ok 0,
      Ok 1, Ok 1, Ok 1, Ok 1, Ok 0, Err 2, Err 16, Ok 0, Ok 0]"

text \<open>
  \<open>emits q tr r\<close>: the execution that started with the trace \<open>tr\<close> and reached \<open>r\<close> has
  added to the trace only events that satisfy \<open>q\<close>.
\<close>

definition emits :: "(event \<Rightarrow> bool) \<Rightarrow> event list \<Rightarrow> 'a result \<Rightarrow> bool" where
  "emits q tr r = (\<exists>es. trace (world_of r) = tr @ es \<and> list_all q es)"

text \<open>An event that is not a \<open>write\<close>, or a \<open>write\<close> of \<open>n\<close> bytes that all are \<open>v\<close>.\<close>

definition payload :: "nat \<Rightarrow> byte \<Rightarrow> event \<Rightarrow> bool" where
  "payload n v e = (case e of Sys (Write fd bs) r \<Rightarrow> bs = replicate n v | _ \<Rightarrow> True)"

subsection \<open>The mount session of the driver, as an automaton on the trace\<close>

text \<open>
  The phases of the driver. \<open>Start\<close> is the driver before \<open>fopen\<close>, \<open>NoLog\<close> after an
  \<open>fopen\<close> that returned \<open>NULL\<close>, \<open>Opened\<close> after one that did not. \<open>Booting\<close> is the
  session of the bootstrap, from its successful \<open>mount\<close> to its first \<open>umount2\<close>.
  The phases of the replay loop carry the value of the sequence counter:
  \<open>Unmounted n\<close> is the driver with no session, before the record that is replayed with
  the counter \<open>n\<close>; \<open>Mounted n\<close> lasts from the successful \<open>mount\<close> of that record to the
  result line that ends its handler, and \<open>Dispatched n\<close> from the result line to the
  first \<open>umount2\<close>. \<open>Leaving m\<close> is an unmount that has not succeeded yet and has seen
  nothing but a busy file system; when it succeeds the driver is \<open>Unmounted m\<close>.
  \<open>Troubled\<close> is an unmount that has reported an error other than \<open>EBUSY\<close>, \<open>Failed\<close>
  the driver after a \<open>mount\<close> that failed, and \<open>Doomed\<close> the driver that has nothing
  left to do but \<open>exit(1)\<close>.
\<close>

datatype phase =
    Start | NoLog | Opened | Booting
  | Unmounted int | Mounted int | Dispatched int | Leaving int
  | Troubled | Failed | Doomed

text \<open>What a handler may do before its result line: calls other than \<open>mount\<close> and
  \<open>umount2\<close>, and diagnostics on \<open>stderr\<close>.\<close>

definition quiet :: "event \<Rightarrow> bool" where
  "quiet e =
     (case e of
        Sys c r \<Rightarrow> (case c of Mount d b f fl da \<Rightarrow> False | Umount2 p f \<Rightarrow> False | _ \<Rightarrow> True)
      | Stdout s \<Rightarrow> False
      | Stderr s \<Rightarrow> True)"

text \<open>\<open>starts p s\<close>: the line \<open>s\<close> begins with \<open>p\<close>.\<close>

definition starts :: "string \<Rightarrow> string \<Rightarrow> bool" where
  "starts p s = (take (length p) s = p)"

text \<open>A pointer returned, as \<open>alloc\<close> reads the answer: it is not \<open>NULL\<close>.\<close>

definition non_null :: "response \<Rightarrow> bool" where
  "non_null r = (case r of Ok v \<Rightarrow> v \<noteq> 0 | Err e \<Rightarrow> False)"

text \<open>
  One event in one phase; \<open>None\<close> is an event that the bracketing of the claim
  forbids there. A record is announced (\<open>seq=n\<close>) and tokenized (the allocations) while
  nothing is mounted, and a \<open>mount\<close> happens only then, or once after \<open>fopen\<close>. Between
  the successful \<open>mount\<close> and the result line of the handler there is neither a \<open>mount\<close>
  nor an \<open>umount2\<close>. After the result line there is nothing but the attempts of the
  unmount controller: \<open>umount2\<close> without a flag, the lines on \<open>stderr\<close> and \<open>usleep\<close>.
  When \<open>umount2\<close> returns \<open>0\<close> and no error but \<open>EBUSY\<close> was reported, the driver is
  unmounted and the sequence counter is one more. Once an error was reported (the line
  \<open>Could not unmount ...\<close>) or the retries are used up (the line \<open>Failed to unmount
  ...\<close>) no record follows. In the session of the bootstrap there are the allocation
  of the path, \<open>mkdir\<close>, \<open>creat\<close> and \<open>close\<close>, and the lines on \<open>stdout\<close>; a line on
  \<open>stderr\<close> ends it.
\<close>

fun step :: "phase \<Rightarrow> event \<Rightarrow> phase option" where
  "step Start e =
     (case e of
        Sys c r \<Rightarrow>
          (case c of
             Fopen f \<Rightarrow> Some (if non_null r then Opened else NoLog)
           | _ \<Rightarrow> None)
      | Stdout s \<Rightarrow> None
      | Stderr s \<Rightarrow> None)"
| "step NoLog e =
     (case e of
        Sys c r \<Rightarrow> None
      | Stdout s \<Rightarrow> Some Doomed
      | Stderr s \<Rightarrow> None)"
| "step Opened e =
     (case e of
        Sys c r \<Rightarrow>
          (case c of
             Mount d b f fl da \<Rightarrow> Some (if r = Ok 0 then Booting else Failed)
           | _ \<Rightarrow> None)
      | Stdout s \<Rightarrow> None
      | Stderr s \<Rightarrow> None)"
| "step Booting e =
     (case e of
        Sys c r \<Rightarrow>
          (case c of
             Umount2 p f \<Rightarrow>
               if f \<noteq> 0 then None else Some (if r = Ok 0 then Unmounted 0 else Leaving 0)
           | Calloc k m \<Rightarrow> Some Booting
           | Mkdir p m \<Rightarrow> Some Booting
           | Creat p m \<Rightarrow> Some Booting
           | Close fd \<Rightarrow> Some Booting
           | _ \<Rightarrow> None)
      | Stdout s \<Rightarrow> Some Booting
      | Stderr s \<Rightarrow> Some Doomed)"
| "step (Unmounted n) e =
     (case e of
        Sys c r \<Rightarrow>
          (case c of
             Mount d b f fl da \<Rightarrow> Some (if r = Ok 0 then Mounted n else Failed)
           | Malloc k \<Rightarrow> Some (Unmounted n)
           | Calloc k m \<Rightarrow> Some (Unmounted n)
           | Realloc k \<Rightarrow> Some (Unmounted n)
           | _ \<Rightarrow> None)
      | Stdout s \<Rightarrow> if s = ''seq='' @ show_dec n @ '' '' @ nl then Some (Unmounted n) else None
      | Stderr s \<Rightarrow> None)"
| "step (Mounted n) e =
     (case e of
        Stdout s \<Rightarrow> Some (Dispatched n)
      | _ \<Rightarrow> if quiet e then Some (Mounted n) else None)"
| "step (Dispatched n) e =
     (case e of
        Sys c r \<Rightarrow>
          (case c of
             Umount2 p f \<Rightarrow>
               if f \<noteq> 0 then None
               else Some (if r = Ok 0 then Unmounted (n + 1) else Leaving (n + 1))
           | _ \<Rightarrow> None)
      | Stdout s \<Rightarrow> None
      | Stderr s \<Rightarrow> None)"
| "step (Leaving m) e =
     (case e of
        Sys c r \<Rightarrow>
          (case c of
             Umount2 p f \<Rightarrow>
               if f \<noteq> 0 then None else Some (if r = Ok 0 then Unmounted m else Leaving m)
           | Usleep u \<Rightarrow> Some (Leaving m)
           | _ \<Rightarrow> None)
      | Stdout s \<Rightarrow> None
      | Stderr s \<Rightarrow>
          Some (if starts ''Could not unmount'' s then Troubled
                else if starts ''Failed to unmount'' s then Doomed
                else Leaving m))"
| "step Troubled e =
     (case e of
        Sys c r \<Rightarrow>
          (case c of
             Umount2 p f \<Rightarrow> if f \<noteq> 0 then None else Some (if r = Ok 0 then Doomed else Troubled)
           | Usleep u \<Rightarrow> Some Troubled
           | _ \<Rightarrow> None)
      | Stdout s \<Rightarrow> None
      | Stderr s \<Rightarrow> Some (if starts ''Failed to unmount'' s then Doomed else Troubled))"
| "step Failed e =
     (case e of
        Sys c r \<Rightarrow>
          (case c of
             Umount2 p f \<Rightarrow> if f = MNT_FORCE then Some Failed else None
           | _ \<Rightarrow> None)
      | Stdout s \<Rightarrow> None
      | Stderr s \<Rightarrow> Some Doomed)"
| "step Doomed e = None"

fun run :: "phase \<Rightarrow> event list \<Rightarrow> phase option" where
  "run p [] = Some p"
| "run p (e # es) = (case step p e of None \<Rightarrow> None | Some p' \<Rightarrow> run p' es)"

text \<open>
  \<open>stops p s w\<close>: the execution may stop in the way \<open>s\<close>, in the world \<open>w\<close>, when the
  driver is in the phase \<open>p\<close>. The description of an execution ends (\<open>Pending\<close>) only
  where the answers are used up, and never where the driver is about to exit. The
  driver exits only with the code 1 and only when it is \<open>Doomed\<close>. An assertion fails
  and a null pointer is used only while a record is tokenized or handled, or, for the
  pointer, in the bootstrap. From the result line of a handler to the successful
  \<open>umount2\<close> the only other stop is the overflow of the sequence counter, before the
  first \<open>umount2\<close>.
\<close>

definition stops :: "phase \<Rightarrow> stop \<Rightarrow> world \<Rightarrow> bool" where
  "stops p s w =
     (case s of
        Pending \<Rightarrow> responses w = [] \<and> (case p of Doomed \<Rightarrow> False | NoLog \<Rightarrow> False | _ \<Rightarrow> True)
      | Exited c \<Rightarrow> c = 1 \<and> (case p of Doomed \<Rightarrow> True | _ \<Rightarrow> False)
      | Aborted \<Rightarrow> (case p of Unmounted n \<Rightarrow> True | Mounted n \<Rightarrow> True | _ \<Rightarrow> False)
      | Segfault \<Rightarrow>
          (case p of Booting \<Rightarrow> True | Unmounted n \<Rightarrow> True | Mounted n \<Rightarrow> True | _ \<Rightarrow> False)
      | Undefined \<Rightarrow>
          (case p of
             Unmounted n \<Rightarrow> True
           | Mounted n \<Rightarrow> True
           | Dispatched n \<Rightarrow> n = INT_MAX
           | _ \<Rightarrow> False))"

text \<open>The answers that the calls of a trace were given, in their order.\<close>

definition answers :: "event list \<Rightarrow> response list" where
  "answers es = concat (map (\<lambda>e. case e of Sys c r \<Rightarrow> [r] | _ \<Rightarrow> []) es)"

text \<open>
  \<open>proceeds p Q tr rs r\<close>, for an execution that started with the trace \<open>tr\<close> and the
  answers \<open>rs\<close> and reached the result \<open>r\<close>: the trace of \<open>r\<close> is \<open>tr\<close> and the events
  that the execution has added; \<open>rs\<close> are the answers that the calls among these events
  were given and the answers that are left; the events added are accepted from the
  phase \<open>p\<close>; when the execution has returned, \<open>Q\<close> holds of the value returned and the
  phase reached, and when it has stopped, it may stop in this way in the phase reached.
\<close>

definition proceeds ::
    "phase \<Rightarrow> ('a \<Rightarrow> phase \<Rightarrow> bool) \<Rightarrow> event list \<Rightarrow> response list \<Rightarrow> 'a result \<Rightarrow> bool" where
  "proceeds p Q tr rs r =
     (let w' = world_of r; es = drop (length tr) (trace w')
      in take (length tr) (trace w') = tr
         \<and> rs = answers es @ responses w'
         \<and> (case run p es of
               None \<Rightarrow> False
             | Some p' \<Rightarrow> (case r of Ret v w \<Rightarrow> Q v p' | Stop s w \<Rightarrow> stops p' s w)))"

text \<open>
  \<open>does q S tr rs r\<close>: the execution that started with the trace \<open>tr\<close> and the answers
  \<open>rs\<close> and reached \<open>r\<close> has added to the trace only events that satisfy \<open>q\<close>, their
  calls have used up the answers that are no longer there, and when it has stopped,
  \<open>S\<close> holds of the way it stopped and of its world.
\<close>

definition does ::
    "(event \<Rightarrow> bool) \<Rightarrow> (stop \<Rightarrow> world \<Rightarrow> bool) \<Rightarrow> event list \<Rightarrow> response list \<Rightarrow> 'a result
      \<Rightarrow> bool" where
  "does q S tr rs r =
     (let w' = world_of r; es = drop (length tr) (trace w')
      in take (length tr) (trace w') = tr
         \<and> rs = answers es @ responses w'
         \<and> list_all q es
         \<and> (case r of Ret v w \<Rightarrow> True | Stop s w \<Rightarrow> S s w))"

text \<open>
  How the tokenizer and a handler may stop: not by an exit, and at the end of the
  described answers only when they are used up.
\<close>

definition crash :: "stop \<Rightarrow> world \<Rightarrow> bool" where
  "crash s w = (case s of Pending \<Rightarrow> responses w = [] | Exited c \<Rightarrow> False | _ \<Rightarrow> True)"

text \<open>
  \<open>handled tr rs r\<close>: the events added are those of one handler: quiet events, and, when
  the handler has returned, its result line at the end, and nothing behind it.
\<close>

definition handled :: "event list \<Rightarrow> response list \<Rightarrow> 'a result \<Rightarrow> bool" where
  "handled tr rs r =
     (let w' = world_of r; es = drop (length tr) (trace w')
      in take (length tr) (trace w') = tr
         \<and> rs = answers es @ responses w'
         \<and> (case r of
               Ret v w \<Rightarrow>
                 es \<noteq> [] \<and> list_all quiet (butlast es)
                 \<and> (case last es of Stdout s \<Rightarrow> True | _ \<Rightarrow> False)
             | Stop s w \<Rightarrow> list_all quiet es \<and> crash s w))"

section \<open>The payload generator: properties\<close>

subsection \<open>What each loop leaves in memory\<close>

lemma pad_loop_byte:
  "pad_loop buffer i n a = (if i \<le> a \<and> a < n then 0 else buffer a)"
proof (induction buffer i n rule: pad_loop.induct)
  case (1 buffer i new_offset)
  show ?case
  proof (cases "i < new_offset")
    case True
    have "pad_loop buffer i new_offset a = pad_loop (buffer(i := 0)) (i + 1) new_offset a"
      by (subst pad_loop.simps) (simp add: True)
    also have "\<dots> = (if i + 1 \<le> a \<and> a < new_offset then 0 else (buffer(i := 0)) a)"
      by (rule "1.IH" [OF True])
    finally show ?thesis
      using True by auto
  next
    case False
    then show ?thesis
      by (subst pad_loop.simps) auto
  qed
qed

lemma store_int_byte:
  "store_int buffer a w x = (if a \<le> x \<and> x < a + 4 then int_byte w (x - a) else buffer x)"
proof -
  have "x = a \<or> x = a + 1 \<or> x = a + 2 \<or> x = a + 3 \<or> x < a \<or> a + 4 \<le> x"
    by arith
  then show ?thesis
    by (auto simp: store_int_def int_byte_def)
qed

lemma load_int_bytes:
  assumes "\<And>j. j < 4 \<Longrightarrow> buffer (a + j) = int_byte w j"
  shows "load_int buffer a = w"
proof -
  have b: "buffer a = int_byte w 0" "buffer (a + 1) = int_byte w 1"
    "buffer (a + 2) = int_byte w 2" "buffer (a + 3) = int_byte w 3"
    using assms [of 0] assms [of 1] assms [of 2] assms [of 3] by simp_all
  show ?thesis
    unfolding load_int_def b int_byte_def
  proof (rule bit_word_eqI)
    fix n :: nat
    assume "n < LENGTH(32)"
    then have "n < 8 \<or> (8 \<le> n \<and> n < 16) \<or> (16 \<le> n \<and> n < 24) \<or> (24 \<le> n \<and> n < 32)"
      by auto
    then show "bit (ucast (ucast (drop_bit (8 * 0) w) :: byte) OR
           push_bit 8 (ucast (ucast (drop_bit (8 * 1) w) :: byte)) OR
           push_bit 16 (ucast (ucast (drop_bit (8 * 2) w) :: byte)) OR
           push_bit 24 (ucast (ucast (drop_bit (8 * 3) w) :: byte)) :: 32 word) n = bit w n"
      by (auto simp: bit_simps)
  qed
qed

lemma int_loop_store:
  assumes "0 \<le> i" and "int (len div 4) < INT_MAX"
  shows "int_loop buffer no i len off =
     Some (\<lambda>x. if no + 4 * nat i \<le> x \<and> x < no + 4 * (len div 4 + 1)
       then int_byte (word_of_nat (off div 4 + (x - no) div 4)) ((x - no) mod 4)
       else buffer x)"
  using assms
proof (induction buffer no i len off rule: int_loop.induct)
  case (1 buffer no i len off)
  show ?case
  proof (cases "nat i \<le> len div 4")
    case True
    with "1.prems" have c: "0 \<le> i \<and> nat i \<le> len div 4" and ne: "i \<noteq> INT_MAX"
      by auto
    have n: "nat (i + 1) = nat i + 1"
      using "1.prems" by simp
    have "int_loop buffer no i len off =
        int_loop (store_int buffer (no + 4 * nat i) (word_of_nat (off div 4 + nat i)))
          no (i + 1) len off"
      using c ne by (subst int_loop.simps) simp
    also have "\<dots> = Some (\<lambda>x. if no + 4 * nat (i + 1) \<le> x \<and> x < no + 4 * (len div 4 + 1)
      then int_byte (word_of_nat (off div 4 + (x - no) div 4)) ((x - no) mod 4)
      else store_int buffer (no + 4 * nat i) (word_of_nat (off div 4 + nat i)) x)"
      using "1.prems" by (intro "1.IH" [OF c ne]) simp_all
    also have "(\<lambda>x. if no + 4 * nat (i + 1) \<le> x \<and> x < no + 4 * (len div 4 + 1)
      then int_byte (word_of_nat (off div 4 + (x - no) div 4)) ((x - no) mod 4)
      else store_int buffer (no + 4 * nat i) (word_of_nat (off div 4 + nat i)) x)
      = (\<lambda>x. if no + 4 * nat i \<le> x \<and> x < no + 4 * (len div 4 + 1)
       then int_byte (word_of_nat (off div 4 + (x - no) div 4)) ((x - no) mod 4)
       else buffer x)"
    proof (rule ext)
      fix x
      show "(if no + 4 * nat (i + 1) \<le> x \<and> x < no + 4 * (len div 4 + 1)
          then int_byte (word_of_nat (off div 4 + (x - no) div 4)) ((x - no) mod 4)
          else store_int buffer (no + 4 * nat i) (word_of_nat (off div 4 + nat i)) x)
        = (if no + 4 * nat i \<le> x \<and> x < no + 4 * (len div 4 + 1)
          then int_byte (word_of_nat (off div 4 + (x - no) div 4)) ((x - no) mod 4)
          else buffer x)"
      proof (cases "no + 4 * nat i \<le> x \<and> x < no + 4 * nat i + 4")
        case True
        define j where "j = x - (no + 4 * nat i)"
        with True have j: "x - no = 4 * nat i + j" "j < 4"
          by auto
        have d: "(x - no) div 4 = nat i" and m: "(x - no) mod 4 = x - (no + 4 * nat i)"
          using j by (simp_all add: j_def)
        show ?thesis
          using True \<open>nat i \<le> len div 4\<close> by (simp add: n store_int_byte d m)
      next
        case False
        then show ?thesis
          using \<open>nat i \<le> len div 4\<close> by (auto simp: n store_int_byte)
      qed
    qed
    finally show ?thesis .
  next
    case False
    then have "int_loop buffer no i len off = Some buffer"
      by (subst int_loop.simps) simp
    moreover have "(\<lambda>x. if no + 4 * nat i \<le> x \<and> x < no + 4 * (len div 4 + 1)
       then int_byte (word_of_nat (off div 4 + (x - no) div 4)) ((x - no) mod 4)
       else buffer x) = buffer"
      using False by (intro ext) auto
    ultimately show ?thesis
      by simp
  qed
qed

text \<open>From \<open>len = 2 ^ 33 - 4\<close> on the counter of the loop reaches \<open>INT_MAX\<close>.\<close>

lemma int_loop_overflow:
  assumes "0 \<le> i" and "i \<le> INT_MAX" and "INT_MAX \<le> int (len div 4)"
  shows "int_loop buffer no i len off = None"
  using assms
proof (induction buffer no i len off rule: int_loop.induct)
  case (1 buffer no i len off)
  from "1.prems" have c: "0 \<le> i \<and> nat i \<le> len div 4"
    by auto
  show ?case
  proof (cases "i = INT_MAX")
    case True
    with c show ?thesis
      by (subst int_loop.simps) simp
  next
    case False
    have "int_loop buffer no i len off =
        int_loop (store_int buffer (no + 4 * nat i) (word_of_nat (off div 4 + nat i)))
          no (i + 1) len off"
      using c False by (subst int_loop.simps) simp
    also have "\<dots> = None"
      using "1.prems" False by (intro "1.IH" [OF c False]) simp_all
    finally show ?thesis .
  qed
qed

text \<open>The memory that the \<open>PATTERN\<close> case leaves.\<close>

lemma generate_data_PATTERN:
  assumes "int (len div 4) < INT_MAX"
  shows "\<exists>m. generate_data rnd r buffer len off PATTERN v = Some (m, r)
    \<and> (\<forall>x. m x =
         (if x < 3 - off mod 4 then 0
          else if x < 3 - off mod 4 + 4 * (len div 4 + 1)
          then int_byte (word_of_nat (off div 4 + (x - (3 - off mod 4)) div 4))
                 ((x - (3 - off mod 4)) mod 4)
          else buffer x))"
proof -
  define no where "no = 3 - off mod 4"
  define m where "m = (\<lambda>x. if no + 4 * nat 0 \<le> x \<and> x < no + 4 * (len div 4 + 1)
       then int_byte (word_of_nat (off div 4 + (x - no) div 4)) ((x - no) mod 4)
       else pad_loop buffer 0 no x)"
  have "int_loop (pad_loop buffer 0 no) no 0 len off = Some m"
    unfolding m_def using assms by (intro int_loop_store) simp_all
  then have "generate_data rnd r buffer len off PATTERN v = Some (m, r)"
    by (simp add: generate_data_def Let_def no_def)
  moreover have "m x =
         (if x < no then 0
          else if x < no + 4 * (len div 4 + 1)
          then int_byte (word_of_nat (off div 4 + (x - no) div 4)) ((x - no) mod 4)
          else buffer x)" for x
    by (auto simp: m_def pad_loop_byte)
  ultimately show ?thesis
    unfolding no_def by blast
qed

lemma generate_data_PATTERN_undefined:
  assumes "INT_MAX \<le> int (len div 4)"
  shows "generate_data rnd r buffer len off PATTERN v = None"
  using int_loop_overflow [of 0 len] assms
  by (simp add: generate_data_def Let_def INT_MAX_def)

lemma pattern_int:
  assumes "k \<le> len div 4"
    and "\<And>x. m x =
         (if x < no then 0
          else if x < no + 4 * (len div 4 + 1)
          then int_byte (word_of_nat (off div 4 + (x - no) div 4)) ((x - no) mod 4)
          else buffer x)"
  shows "load_int m (no + 4 * k) = word_of_nat (off div 4 + k)"
proof (rule load_int_bytes)
  fix j :: nat
  assume j: "j < 4"
  have d: "(4 * k + j) div 4 = k" and m: "(4 * k + j) mod 4 = j"
    using j by simp_all
  have "no + 4 * k + j < no + 4 * (len div 4 + 1)"
    using assms(1) j by simp
  then show "m (no + 4 * k + j) = int_byte (word_of_nat (off div 4 + k)) j"
    unfolding assms(2) using j by (simp add: add.assoc d m)
qed

lemma random_loop_unfold:
  "0 < rem \<Longrightarrow> random_loop b n i rem =
     random_loop (store_int b i n) n (i + min_c 4 (rem - min_c 4 rem)) (rem - min_c 4 rem)"
  by (subst random_loop.simps) (simp add: Let_def)

lemma random_loop_0: "random_loop b n i 0 = b"
  by (subst random_loop.simps) simp

lemma random_loop_agree:
  assumes "\<forall>x\<in>A. b1 x = b2 x"
  shows "\<forall>x\<in>A \<union> (if rem = 0 then {} else {i ..< i + max 4 rem}).
           random_loop b1 n i rem x = random_loop b2 n i rem x"
  using assms
proof (induction rem arbitrary: b1 b2 i A rule: less_induct)
  case (less rem)
  show ?case
  proof (cases "rem = 0")
    case True
    then show ?thesis
      using less.prems by (simp add: random_loop_0)
  next
    case False
    define rem' where "rem' = rem - min_c 4 rem"
    define i' where "i' = i + min_c 4 rem'"
    define A' where "A' = A \<union> {i ..< i + 4}"
    have r: "rem' < rem"
      using False by (simp add: rem'_def min_c_def)
    have agree: "\<forall>x\<in>A'. store_int b1 i n x = store_int b2 i n x"
      using less.prems by (auto simp: A'_def store_int_byte)
    have unf: "random_loop b n i rem = random_loop (store_int b i n) n i' rem'" for b
      using False by (simp add: random_loop_unfold i'_def rem'_def)
    have sub: "A \<union> {i ..< i + max 4 rem} \<subseteq> A' \<union> (if rem' = 0 then {} else {i' ..< i' + max 4 rem'})"
      using False by (auto simp: A'_def i'_def rem'_def min_c_def split: if_splits)
    have "\<forall>x\<in>A' \<union> (if rem' = 0 then {} else {i' ..< i' + max 4 rem'}).
      random_loop (store_int b1 i n) n i' rem' x = random_loop (store_int b2 i n) n i' rem' x"
      by (rule less.IH [OF r agree])
    with sub have "\<forall>x\<in>A \<union> {i ..< i + max 4 rem}. random_loop b1 n i rem x = random_loop b2 n i rem x"
      unfolding unf by blast
    then show ?thesis
      using False by simp
  qed
qed

lemma random_loop_buffer:
  assumes "x < len"
  shows "random_loop b1 n 0 len x = random_loop b2 n 0 len x"
proof -
  have "\<forall>x\<in>{} \<union> (if len = 0 then {} else {0 ..< 0 + max 4 len}).
           random_loop b1 n 0 len x = random_loop b2 n 0 len x"
    by (rule random_loop_agree) simp
  then show ?thesis
    using assms by auto
qed

lemma rand_iso_1: "rand_iso 1 = (16838, 1103527590)"
  by (simp add: rand_iso_def Let_def)

lemma rand_iso_2: "rand_iso 1103527590 = (5758, 2524885223)"
  by (simp add: rand_iso_def Let_def)

subsection \<open>The offset-derived pattern\<close>

lemma sint_word_of_nat_32:
  assumes "n < 2 ^ 31"
  shows "sint (word_of_nat n :: 32 word) = int n"
proof -
  have "int n < 2 ^ 31"
    using assms by (metis of_nat_less_iff of_nat_numeral of_nat_power)
  then have "signed_take_bit 31 (int n) = int n"
    by (intro signed_take_bit_int_eq_self) simp_all
  then show ?thesis
    by (simp add: signed_of_nat)
qed

text \<open>
  Claim C2, as the code has it. For a length below \<open>2 ^ 33 - 4\<close>, so that the counter
  of the loop stays below \<open>INT_MAX\<close>, and an offset that is a \<open>size_t\<close>,
  \<open>generate_data\<close> returns under \<open>PATTERN\<close>, and in the \<open>len\<close> bytes of the buffer: the bytes before index \<open>3 - offset mod 4\<close> are zero;
  every 4-byte integer at a relative position \<open>k\<close> behind that pad that lies inside the
  buffer holds the low 32 bits of \<open>offset / 4 + k\<close>, and read as a C \<open>int\<close> it is
  \<open>offset / 4 + k\<close> itself as long as that number is below \<open>2 ^ 31\<close>; the bytes behind
  the last such integer are the first bytes of the next one.
\<close>

theorem generate_data_pattern:
  assumes "int (len div 4) < INT_MAX" and "offset < 2 ^ 64"
  shows "\<exists>m. generate_data rnd r buffer len offset PATTERN val = Some (m, r)
    \<and> (\<forall>x. x < len \<and> x < 3 - offset mod 4 \<longrightarrow> m x = 0)
    \<and> (\<forall>k. 3 - offset mod 4 + 4 * k + 4 \<le> len \<longrightarrow>
          load_int m (3 - offset mod 4 + 4 * k) = word_of_nat (offset div 4 + k)
          \<and> (offset div 4 + k < 2 ^ 31 \<longrightarrow>
               sint (load_int m (3 - offset mod 4 + 4 * k)) = int (offset div 4 + k)))
    \<and> (\<forall>x. x < len \<and> 3 - offset mod 4 \<le> x \<longrightarrow>
          m x = int_byte (word_of_nat (offset div 4 + (x - (3 - offset mod 4)) div 4))
                  ((x - (3 - offset mod 4)) mod 4))"
proof -
  define no where "no = 3 - offset mod 4"
  from generate_data_PATTERN [OF assms(1), of rnd r buffer offset val]
  obtain m where g: "generate_data rnd r buffer len offset PATTERN val = Some (m, r)"
    and m: "\<And>x. m x =
         (if x < no then 0
          else if x < no + 4 * (len div 4 + 1)
          then int_byte (word_of_nat (offset div 4 + (x - no) div 4)) ((x - no) mod 4)
          else buffer x)"
    unfolding no_def by blast
  have l: "len < 4 * (len div 4 + 1)"
    by presburger
  have pad: "m x = 0" if "x < len \<and> x < no" for x
    using that by (simp add: m)
  have bytes: "m x = int_byte (word_of_nat (offset div 4 + (x - no) div 4)) ((x - no) mod 4)"
    if "x < len \<and> no \<le> x" for x
    using that l by (simp add: m)
  have ints: "load_int m (no + 4 * k) = word_of_nat (offset div 4 + k)
      \<and> (offset div 4 + k < 2 ^ 31 \<longrightarrow> sint (load_int m (no + 4 * k)) = int (offset div 4 + k))"
    if "no + 4 * k + 4 \<le> len" for k
  proof -
    from that have "4 * k + 4 \<le> len"
      by simp
    then have "k \<le> len div 4"
      by presburger
    then have w: "load_int m (no + 4 * k) = word_of_nat (offset div 4 + k)"
      using m by (rule pattern_int)
    have "sint (word_of_nat (offset div 4 + k) :: 32 word) = int (offset div 4 + k)"
      if "offset div 4 + k < 2 ^ 31"
      using that by (rule sint_word_of_nat_32)
    with w show ?thesis
      by simp
  qed
  from g pad ints bytes show ?thesis
    unfolding no_def by blast
qed

theorem generate_data_pattern_witness:
  "int (12 div 4) < INT_MAX \<and> (6::nat) < 2 ^ 64
   \<and> map_option (\<lambda>(m, s). (m 0, load_int m 5, sint (load_int m 5), m 9, m 11))
       (generate_data rand_iso 1 (\<lambda>_. 255) 12 6 PATTERN 0) = Some (0, 2, 2, 3, 0)"
proof -
  have b: "int (12 div 4) < INT_MAX"
    by (simp add: INT_MAX_def)
  have o: "(6::nat) < 2 ^ 64"
    by simp
  from generate_data_pattern [OF b o, of rand_iso 1 "\<lambda>_. 255" 0]
  obtain m where g: "generate_data rand_iso 1 (\<lambda>_. 255) 12 6 PATTERN 0 = Some (m, 1)"
    and pad: "\<And>x. x < 12 \<and> x < 3 - 6 mod 4 \<longrightarrow> m x = 0"
    and ints: "\<And>k. 3 - 6 mod 4 + 4 * k + 4 \<le> 12 \<longrightarrow>
          load_int m (3 - 6 mod 4 + 4 * k) = word_of_nat (6 div 4 + k)
          \<and> (6 div 4 + k < 2 ^ 31 \<longrightarrow>
               sint (load_int m (3 - 6 mod 4 + 4 * k)) = int (6 div 4 + k))"
    and bytes: "\<And>x. x < 12 \<and> 3 - 6 mod 4 \<le> x \<longrightarrow>
          m x = int_byte (word_of_nat (6 div 4 + (x - (3 - 6 mod 4)) div 4))
                  ((x - (3 - 6 mod 4)) mod 4)"
    by blast
  from pad [of 0] ints [of 1] bytes [of 9] bytes [of 11] g b o show ?thesis
    by (simp add: int_byte_def)
qed

text \<open>
  At offset \<open>2 ^ 34\<close> the number \<open>offset / 4\<close> is \<open>2 ^ 32\<close>, which no 4-byte integer holds:
  the integer at position \<open>0\<close> of a buffer of 8 bytes is \<open>0\<close>.
\<close>

theorem generate_data_pattern_counterexample:
  "map_option (\<lambda>(m, s). sint (load_int m (3 - 2 ^ 34 mod 4 + 4 * 0)))
     (generate_data rand_iso 1 (\<lambda>_. 0) 8 (2 ^ 34) PATTERN 0) = Some 0
   \<and> (0 :: int) \<noteq> int (2 ^ 34 div 4 + 0)"
proof -
  have b: "int (8 div 4) < INT_MAX"
    by (simp add: INT_MAX_def)
  from generate_data_PATTERN [OF b, of rand_iso 1 "\<lambda>_. 0" "2 ^ 34" 0]
  obtain m where g: "generate_data rand_iso 1 (\<lambda>_. 0) 8 (2 ^ 34) PATTERN 0 = Some (m, 1)"
    and m: "\<And>x. m x =
         (if x < 3 then 0
          else if x < 3 + 4 * (8 div 4 + 1)
          then int_byte (word_of_nat (2 ^ 34 div 4 + (x - 3) div 4)) ((x - 3) mod 4)
          else (\<lambda>_. 0) x)"
    by auto
  have "load_int m (3 + 4 * 0) = word_of_nat (2 ^ 34 div 4 + 0)"
    by (rule pattern_int [where len = 8 and buffer = "\<lambda>_. 0"]) (simp_all add: m)
  then have "sint (load_int m 3) = 0"
    by simp
  with g show ?thesis
    by simp
qed

subsection \<open>The end of the buffer\<close>

text \<open>
  Under \<open>PATTERN\<close> the last integer store always ends behind the buffer: the loop runs
  for \<open>i = 0 .. len / 4\<close> inclusive and starts \<open>3 - offset mod 4\<close> bytes into the buffer,
  and no store is clipped.
\<close>

lemma generate_data_pattern_last_store:
  assumes "int (len div 4) < INT_MAX"
  shows "len \<le> 3 - offset mod 4 + 4 * (len div 4) + 3
   \<and> map_option (\<lambda>(m, s). m (3 - offset mod 4 + 4 * (len div 4) + 3))
       (generate_data rnd r buffer len offset PATTERN val)
       = Some (int_byte (word_of_nat (offset div 4 + len div 4)) 3)"
proof -
  define no where "no = 3 - offset mod 4"
  from generate_data_PATTERN [OF assms, of rnd r buffer offset val]
  obtain m where g: "generate_data rnd r buffer len offset PATTERN val = Some (m, r)"
    and m: "\<And>x. m x =
         (if x < no then 0
          else if x < no + 4 * (len div 4 + 1)
          then int_byte (word_of_nat (offset div 4 + (x - no) div 4)) ((x - no) mod 4)
          else buffer x)"
    unfolding no_def by blast
  have "len \<le> 4 * (len div 4) + 3"
    by presburger
  then have l: "len \<le> no + 4 * (len div 4) + 3"
    by simp
  have d: "(4 * (len div 4) + 3) div 4 = len div 4" "(4 * (len div 4) + 3) mod 4 = 3"
    by simp_all
  have "m (no + (4 * (len div 4) + 3)) = int_byte (word_of_nat (offset div 4 + len div 4)) 3"
    unfolding m by (simp add: d)
  then show ?thesis
    using l g by (simp add: no_def add.assoc)
qed

text \<open>
  Claim C3 at \<open>len = 5\<close>, \<open>offset = 0\<close>, on memory that holds \<open>0xAA\<close> everywhere:
  the call returns, and the byte at index \<open>7\<close>, two bytes behind the end of the 5-byte
  buffer, is overwritten with the low byte of the integer \<open>1\<close>.
\<close>

theorem generate_data_pattern_overrun:
  "map_option (\<lambda>(m, s). m 7) (generate_data rand_iso 1 (\<lambda>_. 170) 5 0 PATTERN 0) = Some 1"
proof -
  have b: "int (5 div 4) < INT_MAX"
    by (simp add: INT_MAX_def)
  from generate_data_PATTERN [OF b, of rand_iso 1 "\<lambda>_. 170" 0 0]
  obtain m where g: "generate_data rand_iso 1 (\<lambda>_. 170) 5 0 PATTERN 0 = Some (m, 1)"
    and m: "\<And>x. m x =
         (if x < 3 - 0 mod 4 then 0
          else if x < 3 - 0 mod 4 + 4 * (5 div 4 + 1)
          then int_byte (word_of_nat (0 div 4 + (x - (3 - 0 mod 4)) div 4))
                 ((x - (3 - 0 mod 4)) mod 4)
          else (\<lambda>_. 170) x)"
    by blast
  show ?thesis
    by (simp add: g m int_byte_def)
qed

subsection \<open>Determinism\<close>

text \<open>
  Claim C4, as the code has it, for a length and an offset that are \<open>size_t\<close>. Under
  \<open>ONES\<close>, \<open>BYTE_REPEAT\<close> and, for a length below \<open>2 ^ 33 - 4\<close>, \<open>PATTERN\<close>, the call
  returns and the \<open>len\<close> bytes of the buffer after it depend on
  \<open>(len, offset, type, value)\<close> only: not on what the buffer held before, and
  not on the state of the random number generator. Under \<open>RANDOM_EACH_BYTE\<close> they
  depend on the number that \<open>rand\<close> returns in this call as well, and two calls that
  draw the same number fill the buffer alike.
\<close>

theorem generate_data_deterministic:
  assumes "type = RANDOM_EACH_BYTE \<longrightarrow> fst (rand1 r1) = fst (rand2 r2)"
    and "type = PATTERN \<longrightarrow> int (len div 4) < INT_MAX"
    and "len < 2 ^ 64" and "offset < 2 ^ 64"
    and "x < len"
  shows "\<exists>m1 s1 m2 s2.
      generate_data rand1 r1 buffer1 len offset type val = Some (m1, s1)
    \<and> generate_data rand2 r2 buffer2 len offset type val = Some (m2, s2)
    \<and> m1 x = m2 x"
proof (cases type)
  case PATTERN
  with assms(2) have b: "int (len div 4) < INT_MAX"
    by simp
  have l: "len < 4 * (len div 4 + 1)"
    by presburger
  from generate_data_PATTERN [OF b, of rand1 r1 buffer1 offset val]
  obtain m1 where g1: "generate_data rand1 r1 buffer1 len offset PATTERN val = Some (m1, r1)"
    and m1: "\<And>x. m1 x =
         (if x < 3 - offset mod 4 then 0
          else if x < 3 - offset mod 4 + 4 * (len div 4 + 1)
          then int_byte (word_of_nat (offset div 4 + (x - (3 - offset mod 4)) div 4))
                 ((x - (3 - offset mod 4)) mod 4)
          else buffer1 x)"
    by blast
  from generate_data_PATTERN [OF b, of rand2 r2 buffer2 offset val]
  obtain m2 where g2: "generate_data rand2 r2 buffer2 len offset PATTERN val = Some (m2, r2)"
    and m2: "\<And>x. m2 x =
         (if x < 3 - offset mod 4 then 0
          else if x < 3 - offset mod 4 + 4 * (len div 4 + 1)
          then int_byte (word_of_nat (offset div 4 + (x - (3 - offset mod 4)) div 4))
                 ((x - (3 - offset mod 4)) mod 4)
          else buffer2 x)"
    by blast
  from \<open>x < len\<close> l have lt: "x < 3 - offset mod 4 + 4 * (len div 4 + 1)"
    by simp
  have "m1 x = m2 x"
    unfolding m1 m2 by (simp only: lt if_True)
  with g1 g2 show ?thesis
    unfolding PATTERN by blast
next
  case ONES
  then show ?thesis
    by (simp add: generate_data_def memset_def \<open>x < len\<close>)
next
  case BYTE_REPEAT
  then show ?thesis
    by (simp add: generate_data_def memset_def \<open>x < len\<close>)
next
  case RANDOM_EACH_BYTE
  with assms(1) have "fst (rand1 r1) = fst (rand2 r2)"
    by simp
  then show ?thesis
    using random_loop_buffer [OF \<open>x < len\<close>]
    by (simp add: RANDOM_EACH_BYTE generate_data_def split_beta)
qed

theorem generate_data_deterministic_witness:
  "(6::nat) < 8 \<and> int (8 div 4) < INT_MAX \<and> (8::nat) < 2 ^ 64 \<and> (5::nat) < 2 ^ 64
   \<and> map_option (\<lambda>(m, s). m 6) (generate_data rand_iso 1 (\<lambda>_. 0) 8 5 PATTERN 7)
     = map_option (\<lambda>(m, s). m 6) (generate_data rand_iso 2 (\<lambda>_. 255) 8 5 PATTERN 7)
   \<and> map_option (\<lambda>(m, s). m 6) (generate_data rand_iso 1 (\<lambda>_. 0) 8 5 PATTERN 7) = Some 2"
proof -
  have b: "int (8 div 4) < INT_MAX"
    by (simp add: INT_MAX_def)
  from generate_data_deterministic [where type = PATTERN and ?rand1.0 = rand_iso and ?r1.0 = 1
      and ?rand2.0 = rand_iso and ?r2.0 = 2 and len = 8 and x = 6 and ?buffer1.0 = "\<lambda>_. 0"
      and offset = 5 and val = 7 and ?buffer2.0 = "\<lambda>_. 255"] b
  obtain m1 s1 m2 s2
    where g1: "generate_data rand_iso 1 (\<lambda>_. 0) 8 5 PATTERN 7 = Some (m1, s1)"
      and g2: "generate_data rand_iso 2 (\<lambda>_. 255) 8 5 PATTERN 7 = Some (m2, s2)"
      and eq: "m1 6 = m2 6"
    by auto
  from generate_data_PATTERN [OF b, of rand_iso 1 "\<lambda>_. 0" 5 7] g1
  have "m1 6 = 2"
    by (auto simp: int_byte_def)
  with g1 g2 eq b show ?thesis
    by simp
qed

text \<open>
  Two calls in a row under \<open>RANDOM_EACH_BYTE\<close>, with the same length, offset and value
  and the generator of the C standard started at seed \<open>1\<close>: the first draws \<open>16838\<close>, the
  second \<open>5758\<close>, and byte \<open>0\<close> of the two buffers differs.
\<close>

theorem generate_data_deterministic_counterexample:
  "map_option (\<lambda>(m, s). m 0) (generate_data rand_iso 1 (\<lambda>_. 0) 4 0 RANDOM_EACH_BYTE 0) = Some 198
   \<and> map_option (\<lambda>(m, s). m 0)
       (generate_data rand_iso 1103527590 (\<lambda>_. 0) 4 0 RANDOM_EACH_BYTE 0) = Some 126
   \<and> map_option snd (generate_data rand_iso 1 (\<lambda>_. 0) 4 0 RANDOM_EACH_BYTE 0)
       = Some 1103527590"
  by (simp add: generate_data_def rand_iso_1 rand_iso_2 random_loop_unfold random_loop_0
      min_c_def store_int_def)

section \<open>Executions: evaluation\<close>

text \<open>The equations that evaluate an execution on given answers.\<close>

lemmas run_simps = bind_def sys_def alloc_def out_def world0_def

lemmas libc_simps = strtol_def strtoul_def strto_parse_def isspace_def digit_val_def is_digit_def
  LONG_MAX_def LONG_MIN_def ULONG_MAX_def show_dec_def show_oct_def show_nat.simps digit_char_def
  to_int32_def to_uint32_def strtok_def strncmp_eq_def nl_def

lemmas const_simps = ENOMEM_def EBUSY_def EEXIST_def ERANGE_def ENAMETOOLONG_def O_RDWR_def
  SEEK_SET_def MS_NOATIME_def MNT_FORCE_def fsys_def basepath_def device_def DEFAULT_INITCAP_def
  PATH_MAX_def

section \<open>The unmount controller: properties\<close>

lemma umount_calls_simps [simp]:
  "umount_calls [] = []"
  "umount_calls (e # es) = (case e of Sys (Umount2 p f) r \<Rightarrow> [r] | _ \<Rightarrow> []) @ umount_calls es"
  by (simp_all add: umount_calls_def)

lemma sleeps_simps [simp]:
  "sleeps [] = []"
  "sleeps (e # es) = (case e of Sys (Usleep u) r \<Rightarrow> [u] | _ \<Rightarrow> []) @ sleeps es"
  by (simp_all add: sleeps_def)

lemma lseek_offsets_simps [simp]:
  "lseek_offsets [] = []"
  "lseek_offsets (e # es) = (case e of Sys (Lseek fd off wh) r \<Rightarrow> [off] | _ \<Rightarrow> []) @ lseek_offsets es"
  by (simp_all add: lseek_offsets_def)

lemma umount_calls_append: "umount_calls (a @ b) = umount_calls a @ umount_calls b"
  by (simp add: umount_calls_def)

lemma sleeps_append: "sleeps (a @ b) = sleeps a @ sleeps b"
  by (simp add: sleeps_def)

lemma busy_Suc: "busy (Suc k) = Err EBUSY # Ok 0 # busy k"
  by (simp add: busy_def)

lemma busy_0: "busy 0 = []"
  by (simp add: busy_def)

text \<open>One turn of the loop on a busy file system.\<close>

lemma unmount_loop_busy_step:
  assumes "0 < retry_limit"
  shows "\<exists>msg. unmount_loop env retry_limit n hf \<lparr>responses = Err EBUSY # Ok 0 # rs, trace = tr, errno = e\<rparr>
    = unmount_loop env (retry_limit - 1) (n + 1) hf
        \<lparr>responses = rs,
         trace = tr @ [Sys (Umount2 basepath 0) (Err EBUSY), Stderr msg,
                       Sys (Usleep (to_uint32 (1000 * to_uint32 (100 * 2 ^ nat n)))) (Ok 0)],
         errno = EBUSY\<rparr>"
  using assms
  apply (subst unmount_loop.simps)
  apply (simp add: run_simps Let_def)
  apply (rule exI)
  apply (rule refl)
  done

lemma unmount_loop_busy:
  assumes "int k \<le> retry_limit" and "0 \<le> n"
  shows "\<exists>w'. unmount_loop env retry_limit n hf \<lparr>responses = busy k @ rs, trace = tr, errno = e\<rparr>
        = unmount_loop env (retry_limit - int k) (n + int k) hf w'
      \<and> responses w' = rs
      \<and> umount_calls (trace w') = umount_calls tr @ replicate k (Err EBUSY)
      \<and> sleeps (trace w') = sleeps tr
           @ map (\<lambda>i. to_uint32 (1000 * to_uint32 (100 * 2 ^ (nat n + i)))) [0 ..< k]"
  using assms
proof (induction k arbitrary: retry_limit n tr e)
  case 0
  show ?case
    by (rule exI [of _ "\<lparr>responses = rs, trace = tr, errno = e\<rparr>"]) (simp add: busy_0)
next
  case (Suc k)
  from Suc.prems have pos: "0 < retry_limit" and less: "int k \<le> retry_limit - 1" and n: "0 \<le> n + 1"
    by simp_all
  obtain msg where step: "unmount_loop env retry_limit n hf
      \<lparr>responses = Err EBUSY # Ok 0 # (busy k @ rs), trace = tr, errno = e\<rparr>
    = unmount_loop env (retry_limit - 1) (n + 1) hf
        \<lparr>responses = busy k @ rs,
         trace = tr @ [Sys (Umount2 basepath 0) (Err EBUSY), Stderr msg,
                       Sys (Usleep (to_uint32 (1000 * to_uint32 (100 * 2 ^ nat n)))) (Ok 0)],
         errno = EBUSY\<rparr>"
    using unmount_loop_busy_step [OF pos] by blast
  from Suc.IH [OF less n] obtain w' where w':
    "unmount_loop env (retry_limit - 1) (n + 1) hf
        \<lparr>responses = busy k @ rs,
         trace = tr @ [Sys (Umount2 basepath 0) (Err EBUSY), Stderr msg,
                       Sys (Usleep (to_uint32 (1000 * to_uint32 (100 * 2 ^ nat n)))) (Ok 0)],
         errno = EBUSY\<rparr> = unmount_loop env (retry_limit - 1 - int k) (n + 1 + int k) hf w'"
    "responses w' = rs"
    "umount_calls (trace w') = umount_calls (tr @ [Sys (Umount2 basepath 0) (Err EBUSY), Stderr msg,
                       Sys (Usleep (to_uint32 (1000 * to_uint32 (100 * 2 ^ nat n)))) (Ok 0)])
        @ replicate k (Err EBUSY)"
    "sleeps (trace w') = sleeps (tr @ [Sys (Umount2 basepath 0) (Err EBUSY), Stderr msg,
                       Sys (Usleep (to_uint32 (1000 * to_uint32 (100 * 2 ^ nat n)))) (Ok 0)])
           @ map (\<lambda>i. to_uint32 (1000 * to_uint32 (100 * 2 ^ (nat (n + 1) + i)))) [0 ..< k]"
    by blast
  have nat: "nat (n + 1) = Suc (nat n)"
    using Suc.prems(2) by simp
  have m: "map (\<lambda>i. to_uint32 (1000 * to_uint32 (100 * 2 ^ (nat n + i)))) [0 ..< Suc k]
    = to_uint32 (1000 * to_uint32 (100 * 2 ^ nat n))
      # map (\<lambda>i. to_uint32 (1000 * to_uint32 (100 * 2 ^ (Suc (nat n) + i)))) [0 ..< k]"
    unfolding map_upt_Suc by simp
  have i: "retry_limit - 1 - int k = retry_limit - int (Suc k)" "n + 1 + int k = n + int (Suc k)"
    by simp_all
  show ?case
    apply (rule exI [of _ w'])
    apply (simp only: busy_Suc append_Cons step w' nat m i)
    apply (simp add: umount_calls_append sleeps_append replicate_app_Cons_same)
    done
qed

text \<open>The turn that finds the file system unmounted.\<close>

lemma unmount_loop_ok:
  assumes "0 < retry_limit" and "responses w = Ok 0 # rs"
  shows "unmount_loop env retry_limit n hf w
    = Ret (retry_limit, hf) (w\<lparr>responses := rs, trace := trace w @ [Sys (Umount2 basepath 0) (Ok 0)]\<rparr>)"
  using assms by (subst unmount_loop.simps) (simp add: run_simps)

lemma unmount_loop_exhausted:
  "unmount_loop env 0 n hf w = Ret (0, hf) w"
  by (subst unmount_loop.simps) simp

text \<open>Busy \<open>k < 19\<close> times, then unmounted: \<open>k + 1\<close> attempts, \<open>k\<close> waits, success.\<close>

lemma unmount_all_busy_then_ok:
  assumes "k < 19"
  shows "\<exists>w'. unmount_all env strict (world0 (busy k @ Ok 0 # rs)) = Ret () w'
      \<and> responses w' = rs
      \<and> umount_calls (trace w') = replicate k (Err EBUSY) @ [Ok 0]
      \<and> sleeps (trace w') = map (\<lambda>i. to_uint32 (1000 * to_uint32 (100 * 2 ^ i))) [0 ..< k]"
proof -
  from assms have k: "int k \<le> 19" "0 < 19 - int k"
    by simp_all
  from unmount_loop_busy [OF k(1), of 0 env False "Ok 0 # rs" "[]" 0]
  obtain w' where w': "unmount_loop env 19 0 False (world0 (busy k @ Ok 0 # rs))
      = unmount_loop env (19 - int k) (int k) False w'"
    "responses w' = Ok 0 # rs"
    "umount_calls (trace w') = replicate k (Err EBUSY)"
    "sleeps (trace w') = map (\<lambda>i. to_uint32 (1000 * to_uint32 (100 * 2 ^ i))) [0 ..< k]"
    by (auto simp: world0_def)
  show ?thesis
    using k(2)
    by (simp add: unmount_all_def w' unmount_loop_ok [OF k(2) w'(2)] bind_def
        umount_calls_append sleeps_append)
qed

text \<open>Busy 19 times: 19 attempts, then failure; in strict mode \<open>exit(1)\<close>.\<close>

lemma unmount_all_busy_exhausted:
  "\<exists>w'. unmount_all env strict (world0 (busy 19 @ rs))
        = (if strict then Stop (Exited 1) w' else Ret () w')
      \<and> responses w' = rs
      \<and> umount_calls (trace w') = replicate 19 (Err EBUSY)
      \<and> last (trace w') = Stderr (''Failed to unmount file system '' @ fsys @ '' at ''
                          @ basepath @ '' after retries.'' @ nl)"
proof -
  from unmount_loop_busy [of 19 19 0 env False rs "[]" 0]
  obtain w' where w': "unmount_loop env 19 0 False (world0 (busy 19 @ rs))
      = unmount_loop env 0 19 False w'"
    "responses w' = rs"
    "umount_calls (trace w') = replicate 19 (Err EBUSY)"
    by (auto simp: world0_def)
  show ?thesis
    by (rule exI [of _ "w'\<lparr>trace := trace w' @ [Stderr (''Failed to unmount file system '' @ fsys
          @ '' at '' @ basepath @ '' after retries.'' @ nl)]\<rparr>"])
      (simp add: unmount_all_def w' unmount_loop_exhausted bind_def out_def umount_calls_append)
qed

text \<open>While \<open>1000 * waitms\<close> fits into 32 bits, the waits add up to \<open>100 * (2 ^ k - 1)\<close> ms.\<close>

lemma usleep_arg_small:
  assumes "i < 16"
  shows "to_uint32 (1000 * to_uint32 (100 * 2 ^ i)) = 100000 * 2 ^ i"
proof -
  have "(2::int) ^ i \<le> 2 ^ 15"
    using assms by (intro power_increasing) simp_all
  then have "(100000::int) * 2 ^ i < 2 ^ 32" "(100::int) * 2 ^ i < 2 ^ 32"
    by simp_all
  then show ?thesis
    by (simp add: to_uint32_def)
qed

lemma sleeps_total:
  assumes "k \<le> 16"
  shows "sum_list (map (\<lambda>i. to_uint32 (1000 * to_uint32 (100 * 2 ^ i))) [0 ..< k])
    = 1000 * (100 * (2 ^ k - 1))"
  using assms
proof (induction k)
  case 0
  show ?case by simp
next
  case (Suc k)
  then have IH: "sum_list (map (\<lambda>i. to_uint32 (1000 * to_uint32 (100 * 2 ^ i))) [0 ..< k])
      = 1000 * (100 * (2 ^ k - 1))"
    and k: "k < 16"
    by simp_all
  have "sum_list (map (\<lambda>i. to_uint32 (1000 * to_uint32 (100 * 2 ^ i))) [0 ..< Suc k])
      = 1000 * (100 * (2 ^ k - 1)) + to_uint32 (1000 * to_uint32 (100 * 2 ^ k))"
    by (simp add: IH)
  also have "\<dots> = 1000 * (100 * (2 ^ k - 1)) + 100000 * 2 ^ k"
    by (simp only: usleep_arg_small [OF k])
  also have "\<dots> = 1000 * (100 * (2 ^ Suc k - 1))"
    by simp
  finally show ?case .
qed

text \<open>
  An error other than \<open>EBUSY\<close> sets \<open>has_failure\<close> and leaves the loop running with
  the same \<open>retry_limit\<close>: its next step is another \<open>umount2\<close>.
\<close>

lemma unmount_loop_error_step:
  assumes "0 < retry_limit" and "e \<noteq> EBUSY"
  shows "unmount_loop env retry_limit n hf \<lparr>responses = Err e # rs, trace = tr, errno = e0\<rparr>
    = unmount_loop env retry_limit n True
        \<lparr>responses = rs,
         trace = tr @ [Sys (Umount2 basepath 0) (Err e),
                       Stderr (''Could not unmount file system '' @ fsys @ '' at '' @ basepath
                         @ '' ('' @ strerror env e @ '')'' @ nl)],
         errno = e\<rparr>"
  using assms by (subst unmount_loop.simps) (simp add: run_simps)

lemma unmount_loop_pending:
  assumes "0 < retry_limit"
  shows "unmount_loop env retry_limit n hf \<lparr>responses = [], trace = tr, errno = e0\<rparr>
    = Stop Pending \<lparr>responses = [], trace = tr, errno = e0\<rparr>"
  using assms by (subst unmount_loop.simps) (simp add: run_simps)

text \<open>As long as \<open>umount2\<close> fails with such an error the controller goes on calling it.\<close>

lemma unmount_loop_error_forever:
  assumes "0 < retry_limit" and "e \<noteq> EBUSY"
  shows "\<exists>w'. unmount_loop env retry_limit n hf
           \<lparr>responses = replicate m (Err e), trace = tr, errno = e0\<rparr> = Stop Pending w'
      \<and> umount_calls (trace w') = umount_calls tr @ replicate m (Err e)"
proof (induction m arbitrary: hf tr e0)
  case 0
  show ?case
    by (simp add: unmount_loop_pending [OF assms(1)])
next
  case (Suc m)
  show ?case
    using Suc [of True "tr @ [Sys (Umount2 basepath 0) (Err e),
                       Stderr (''Could not unmount file system '' @ fsys @ '' at '' @ basepath
                         @ '' ('' @ strerror env e @ '')'' @ nl)]" e]
    by (simp add: unmount_loop_error_step [OF assms] umount_calls_append replicate_append_same)
qed

text \<open>
  Claim C5, at 17 busy attempts followed by success. The controller returns after the
  18th attempt, but the 17th wait is not \<open>100 * 2 ^ 16\<close> ms: \<open>1000 * waitms\<close> is computed
  in 32 bits, \<open>6553600000\<close> becomes \<open>2258632704\<close> microseconds, and the waits add up to
  \<open>8812132704\<close> microseconds where the claim has \<open>100 * (2 ^ 17 - 1)\<close> ms, which are
  \<open>13107100000\<close> microseconds.
\<close>

theorem unmount_all_wait_wraps:
  "sleeps (trace (world_of (unmount_all env0 True (world0 (busy 17 @ [Ok 0])))))
     = [100000, 200000, 400000, 800000, 1600000, 3200000, 6400000, 12800000, 25600000,
        51200000, 102400000, 204800000, 409600000, 819200000, 1638400000, 3276800000,
        2258632704]
   \<and> sum_list (sleeps (trace (world_of (unmount_all env0 True (world0 (busy 17 @ [Ok 0]))))))
     = 8812132704
   \<and> 1000 * (100 * (2 ^ 17 - 1)) = (13107100000 :: int)"
proof -
  obtain w' where "unmount_all env0 True (world0 (busy 17 @ [Ok 0])) = Ret () w'"
    and "sleeps (trace w') = map (\<lambda>i. to_uint32 (1000 * to_uint32 (100 * 2 ^ i))) [0 ..< 17]"
    using unmount_all_busy_then_ok [of 17 env0 True "[]"] by auto
  moreover have "[0 ..< 17] = [0, 1, 2, 3, 4, 5, 6, 7, 8, 9, 10, 11, 12, 13, 14, 15, 16 :: nat]"
    by (simp add: upt_rec)
  ultimately show ?thesis
    by (simp add: to_uint32_def)
qed

text \<open>
  Claim C6, at an \<open>umount2\<close> that fails with \<open>EINVAL\<close> (22) and would succeed when called
  again: the controller reports the failure and calls \<open>umount2\<close> a second time.
\<close>

theorem unmount_all_retries_after_error:
  "unmount_all env0 False (world0 [Err 22, Ok 0])
   = Ret ()
       \<lparr>responses = [],
        trace =
          [Sys (Umount2 ''/mnt/test-jfs-i1-s0'' 0) (Err 22),
           Stderr (''Could not unmount file system jfs at /mnt/test-jfs-i1-s0 (Invalid argument)''
             @ nl),
           Sys (Umount2 ''/mnt/test-jfs-i1-s0'' 0) (Ok 0)],
        errno = 22\<rparr>"
  by (simp add: unmount_all_def unmount_loop.simps run_simps env0_def strerror_linux_def EBUSY_def
      basepath_def fsys_def nl_def)

section \<open>The tokenizer and the record store: properties\<close>

text \<open>The example of the specification, with the delimiters of the driver.\<close>

lemma extract_fields_example:
  "extract_fields ''create_file, /d-01/f-00, 0100, 0644'' '', '' (world0 (replicate 5 (Ok 1)))
   = Ret \<lparr>vec_data = Some [''create_file'', ''/d-01/f-00'', ''0100'', ''0644''],
          vec_unitsize = 8, vec_len = 4, vec_capacity = 16\<rparr>
       \<lparr>responses = [],
        trace = [Sys (Calloc 16 8) (Ok 1), Sys (Malloc 12) (Ok 1), Sys (Malloc 11) (Ok 1),
          Sys (Malloc 5) (Ok 1), Sys (Malloc 5) (Ok 1)],
        errno = 0\<rparr>"
  by (simp add: extract_fields_def vector_init_def vector_add_def fields_loop.simps strtok_def
      DEFAULT_INITCAP_def run_simps eval_nat_numeral)

text \<open>
  Claim C8, at the line \<open>a;b;c\<close> with the delimiter set \<open>;\<close>: only the first \<open>strtok\<close>
  uses \<open>delim\<close>, the later ones use \<open>", "\<close>, and the fields are \<open>a\<close> and \<open>b;c\<close>.
\<close>

theorem extract_fields_other_delim:
  "extract_fields ''a;b;c'' '';'' (world0 [Ok 1, Ok 1, Ok 1])
   = Ret \<lparr>vec_data = Some [''a'', ''b;c''], vec_unitsize = 8, vec_len = 2, vec_capacity = 16\<rparr>
       \<lparr>responses = [],
        trace = [Sys (Calloc 16 8) (Ok 1), Sys (Malloc 2) (Ok 1), Sys (Malloc 4) (Ok 1)],
        errno = 0\<rparr>"
  by (simp add: extract_fields_def vector_init_def vector_add_def fields_loop.simps strtok_def
      DEFAULT_INITCAP_def run_simps)

text \<open>What \<open>vector_add\<close> does when the store is full and \<open>realloc\<close> fails: it returns
  \<open>ENOMEM\<close> and leaves the vector as it was.\<close>

lemma vector_add_ENOMEM:
  assumes "vec_capacity vec \<le> vec_len vec" and "responses w = Err e # rs"
  shows "vector_add vec el w
    = Ret (ENOMEM, vec) (w\<lparr>responses := rs,
        trace := trace w @ [Sys (Realloc (vec_unitsize vec * vec_capacity vec * 2)) (Err e)],
        errno := e\<rparr>)"
  using assms by (simp add: vector_add_def vector_expand_def run_simps ENOMEM_def)

text \<open>
  Claim C9, at a line of 17 fields when the \<open>realloc\<close> for the 17th fails: \<open>extract_fields\<close>
  drops the value that \<open>vector_add\<close> returns, and returns 16 fields to its caller as if
  nothing had happened.
\<close>

theorem extract_fields_drops_token:
  "extract_fields ''a b c d e f g h i j k l m n o p q'' '', ''
     (world0 (replicate 18 (Ok 1) @ [Err 12]))
   = Ret \<lparr>vec_data = Some [''a'', ''b'', ''c'', ''d'', ''e'', ''f'', ''g'', ''h'', ''i'', ''j'',
            ''k'', ''l'', ''m'', ''n'', ''o'', ''p''],
          vec_unitsize = 8, vec_len = 16, vec_capacity = 16\<rparr>
       \<lparr>responses = [],
        trace = Sys (Calloc 16 8) (Ok 1) # replicate 17 (Sys (Malloc 2) (Ok 1))
                  @ [Sys (Realloc 256) (Err 12)],
        errno = 12\<rparr>"
  by (simp add: extract_fields_def vector_init_def vector_add_def vector_expand_def
      fields_loop.simps strtok_def DEFAULT_INITCAP_def ENOMEM_def run_simps eval_nat_numeral)

section \<open>The bootstrap: properties\<close>

text \<open>
  Claim C10. A path of more than \<open>PATH_MAX - 1 = 4095\<close> bytes makes \<open>mkdir_p\<close> return \<open>-1\<close>
  with \<open>errno = ENAMETOOLONG\<close> in a world that is otherwise as before: no call was made.
  For every path \<open>errno\<close> is cleared first: what \<open>mkdir_p\<close> does and returns is what it
  does and returns when it is entered with \<open>errno = 0\<close>.
\<close>

theorem mkdir_p_name_too_long:
  "(4095 < length path \<longrightarrow>
      mkdir_p path dir_mode file_mode w = Ret (- 1) (w\<lparr>errno := ENAMETOOLONG\<rparr>))
   \<and> mkdir_p path dir_mode file_mode w = mkdir_p path dir_mode file_mode (w\<lparr>errno := 0\<rparr>)"
  by (simp add: mkdir_p_def PATH_MAX_def)

theorem mkdir_p_name_too_long_witness:
  "4095 < length (replicate 4096 CHR ''a'')
   \<and> mkdir_p (replicate 4096 CHR ''a'') 493 420 \<lparr>responses = [Ok 0], trace = [], errno = 5\<rparr>
       = Ret (- 1) \<lparr>responses = [Ok 0], trace = [], errno = 36\<rparr>
   \<and> mkdir_p ''/d'' 493 420 \<lparr>responses = [Ok 0], trace = [], errno = 5\<rparr>
       = Ret 0 \<lparr>responses = [Ok 0], trace = [], errno = 0\<rparr>"
  using mkdir_p_name_too_long [of "replicate 4096 CHR ''a''" 493 420
      "\<lparr>responses = [Ok 0], trace = [], errno = 5\<rparr>"]
  by (simp add: ENAMETOOLONG_def mkdir_p_def mkdir_loop.simps PATH_MAX_def run_simps)

section \<open>The write handler: properties\<close>

subsection \<open>The events that an execution adds\<close>

lemma emits_Ret: "trace w' = tr \<Longrightarrow> emits q tr (Ret v w')"
  by (simp add: emits_def)

lemma emits_Stop: "trace w' = tr \<Longrightarrow> emits q tr (Stop s w')"
  by (simp add: emits_def)

lemma emits_sys: "trace w = tr \<Longrightarrow> (\<And>r. q (Sys c r)) \<Longrightarrow> emits q tr (sys c w)"
  by (auto simp: emits_def sys_def split: list.splits response.splits)

lemma emits_alloc: "trace w = tr \<Longrightarrow> (\<And>r. q (Sys c r)) \<Longrightarrow> emits q tr (alloc c w)"
  by (auto simp: emits_def alloc_def split: list.splits response.splits)

lemma emits_out: "trace w = tr \<Longrightarrow> q e \<Longrightarrow> emits q tr (out e w)"
  by (auto simp: emits_def out_def)

lemma emits_bind:
  assumes "emits q tr m" and "\<And>v w'. m = Ret v w' \<Longrightarrow> emits q (trace w') (f v w')"
  shows "emits q tr (bind m f)"
proof (cases m)
  case (Ret v w')
  from assms(1) Ret obtain es where es: "trace w' = tr @ es" "list_all q es"
    by (auto simp: emits_def)
  from assms(2) [OF Ret] obtain es' where es': "trace (world_of (f v w')) = trace w' @ es'" "list_all q es'"
    by (auto simp: emits_def)
  show ?thesis
    unfolding emits_def
    by (rule exI [of _ "es @ es'"]) (simp add: Ret bind_def es es')
next
  case (Stop s w')
  with assms(1) show ?thesis
    by (simp add: emits_def bind_def)
qed

lemma emits_field: "trace w = tr \<Longrightarrow> emits q tr (field vec i w)"
  by (auto simp: field_def emits_def split: option.splits)

lemma trace_conv [simp]: "trace (snd (conv r w)) = trace w"
  by (simp add: conv_def)

lemma fst_conv [simp]: "fst (conv r w) = fst r"
  by (simp add: conv_def)

lemma emits_if:
  "(c \<Longrightarrow> emits q tr a) \<Longrightarrow> (\<not> c \<Longrightarrow> emits q tr b) \<Longrightarrow> emits q tr (if c then a else b)"
  by simp

lemmas emits_intros = emits_bind emits_if emits_sys emits_alloc emits_out emits_Ret emits_Stop
  emits_field

lemma emits_write_file:
  assumes "trace w = tr"
    and "\<And>r. q (Sys (Open p f O_RDWR) r)"
    and "\<And>fd r. q (Sys (Lseek fd off SEEK_SET) r)"
    and "\<And>fd r. q (Sys (Write fd (map d [0 ..< l])) r)"
    and "\<And>fd r. q (Sys (Close fd) r)"
    and "\<And>s. q (Stderr s)"
  shows "emits q tr (write_file p f d off l w)"
  unfolding write_file_def Let_def
  by (intro emits_intros assms; simp)

lemma emits_create_file:
  assumes "trace w = tr"
    and "\<And>r. q (Sys (Open p f m) r)"
    and "\<And>fd r. q (Sys (Close fd) r)"
  shows "emits q tr (create_file p f m w)"
  unfolding create_file_def
  by (intro emits_intros assms; simp)

lemma emits_report: "trace w = tr \<Longrightarrow> (\<And>s. q (Stdout s)) \<Longrightarrow> emits q tr (report a ret b w)"
  unfolding report_def by (intro emits_intros; simp)

lemma map_memset: "map (memset buf c n) [0 ..< n] = replicate n (word_of_int c)"
  by (rule nth_equalityI) (simp_all add: memset_def)

lemma seq_div_n_fs:
  assumes "0 \<le> seq" "seq < 2 ^ 31" "0 < nfs" "nfs < 2 ^ 32"
  shows "to_uint32 nfs \<noteq> 0" and "to_int32 (to_uint32 seq div to_uint32 nfs) = seq div nfs"
proof -
  have s: "to_uint32 seq = seq" and n: "to_uint32 nfs = nfs"
    using assms by (simp_all add: to_uint32_def)
  show "to_uint32 nfs \<noteq> 0"
    using assms n by simp
  have "0 \<le> seq div nfs"
    using assms by (simp add: pos_imp_zdiv_nonneg_iff)
  moreover have "seq div nfs \<le> seq"
    using zdiv_mono2 [of seq 1 nfs] assms by simp
  ultimately have "0 \<le> seq div nfs" "seq div nfs < 2 ^ 31"
    using assms by simp_all
  then have "to_int32 (seq div nfs) = seq div nfs"
    by (simp add: to_int32_def Let_def)
  then show "to_int32 (to_uint32 seq div to_uint32 nfs) = seq div nfs"
    by (simp add: s n)
qed

lemma generate_data_BYTE_REPEAT:
  "generate_data rnd r buffer len off BYTE_REPEAT v = Some (memset buffer v len, r)"
  by (simp add: generate_data_def)

lemma do_write_file_emits:
  assumes "0 \<le> seq" "seq < 2 ^ 31" "0 < nfs" "nfs < 2 ^ 32"
    and "vector_get argvec 5 = Some len_str"
  shows "emits (payload (nat (fst (strtoul 10 len_str))) (word_of_int (seq div nfs)))
           (trace w) (do_write_file env nfs argvec seq w)"
  unfolding do_write_file_def Let_def split_beta generate_data_BYTE_REPEAT option.case prod.case
  by (intro emits_intros emits_write_file emits_report;
      simp add: field_def assms(5) map_memset seq_div_n_fs [OF assms(1-4)] payload_def)

lemma scenario_fields:
  "extract_fields ''write_file, /d-01/f-00, 02, 0, 4096, 4096'' '', ''
     \<lparr>responses = replicate 7 (Ok 1) @ rs, trace = tr, errno = e\<rparr>
   = Ret \<lparr>vec_data = Some [''write_file'', ''/d-01/f-00'', ''02'', ''0'', ''4096'', ''4096''],
          vec_unitsize = 8, vec_len = 6, vec_capacity = 16\<rparr>
       \<lparr>responses = rs,
        trace = tr @ [Sys (Calloc 16 8) (Ok 1), Sys (Malloc 11) (Ok 1), Sys (Malloc 11) (Ok 1),
          Sys (Malloc 3) (Ok 1), Sys (Malloc 2) (Ok 1), Sys (Malloc 5) (Ok 1),
          Sys (Malloc 5) (Ok 1)],
        errno = e\<rparr>"
  by (simp add: extract_fields_def vector_init_def vector_add_def fields_loop.simps strtok_def
      DEFAULT_INITCAP_def run_simps eval_nat_numeral)

lemma scenario_write:
  "do_write_file env0 1
     \<lparr>vec_data = Some [''write_file'', ''/d-01/f-00'', ''02'', ''0'', ''4096'', ''4096''],
          vec_unitsize = 8, vec_len = 6, vec_capacity = 16\<rparr> 7
     \<lparr>responses = [Ok 1, Ok 3, Ok 4096, Ok 4096, Ok 0] @ rs, trace = tr, errno = 0\<rparr>
   = Ret 4096
       \<lparr>responses = rs,
        trace = tr @ [Sys (Malloc 4096) (Ok 1), Sys (Open ''/d-01/f-00'' 2 2) (Ok 3),
          Sys (Lseek 3 4096 0) (Ok 4096), Sys (Write 3 (replicate 4096 7)) (Ok 4096),
          Sys (Close 3) (Ok 0),
          Stdout (''write_file(/d-01/f-00, 2, 4096, 4096) -> ret=4096, errno=Success'' @ nl)],
        errno = 0\<rparr>"
  by (simp add: do_write_file_def write_file_def report_def field_def vector_get_def conv_def
      generate_data_def map_memset env0_def strerror_linux_def run_simps libc_simps const_simps)

text \<open>
  Claim C1, as the code has it. For a sequence position \<open>0 \<le> seq < 2 ^ 31\<close> and an
  instance count \<open>0 < nfs < 2 ^ 32\<close>, every \<open>write\<close> of \<open>do_write_file\<close> is given the
  buffer of the \<open>BYTE_REPEAT\<close> policy with the value \<open>seq / nfs\<close>: as many bytes as
  field 5 says, all equal to \<open>seq / nfs\<close> (as a byte). The record
  \<open>write_file, /d-01/f-00, 02, 0, 4096, 4096\<close> at sequence index 7 with instance count 1
  seeks to offset 4096, which is field 4 (field 3 is not read), writes 4096 bytes equal
  to 7 there and, when \<open>write\<close> returns 4096, prints a result line with \<open>ret=4096\<close>.
\<close>

theorem do_write_file_payload:
  assumes "0 \<le> seq" and "seq < 2 ^ 31" and "0 < nfs" and "nfs < 2 ^ 32"
    and "vector_get argvec 5 = Some len_str"
  shows "emits (payload (nat (fst (strtoul 10 len_str))) (word_of_int (seq div nfs)))
           (trace w) (do_write_file env nfs argvec seq w)
    \<and> do_write_file env0 1
         \<lparr>vec_data = Some [''write_file'', ''/d-01/f-00'', ''02'', ''0'', ''4096'', ''4096''],
          vec_unitsize = 8, vec_len = 6, vec_capacity = 16\<rparr> 7
         (world0 [Ok 1, Ok 3, Ok 4096, Ok 4096, Ok 0])
       = Ret 4096
           \<lparr>responses = [],
            trace = [Sys (Malloc 4096) (Ok 1), Sys (Open ''/d-01/f-00'' 2 2) (Ok 3),
              Sys (Lseek 3 4096 0) (Ok 4096), Sys (Write 3 (replicate 4096 7)) (Ok 4096),
              Sys (Close 3) (Ok 0),
              Stdout (''write_file(/d-01/f-00, 2, 4096, 4096) -> ret=4096, errno=Success'' @ nl)],
            errno = 0\<rparr>"
  using do_write_file_emits [OF assms] scenario_write [of "[]" "[]"]
  by (simp add: world0_def)

theorem do_write_file_payload_witness:
  "(0::int) \<le> 7 \<and> (7::int) < 2 ^ 31 \<and> (0::int) < 1 \<and> (1::int) < 2 ^ 32
   \<and> vector_get \<lparr>vec_data = Some [''write_file'', ''/d-01/f-00'', ''02'', ''0'', ''4096'', ''4096''],
          vec_unitsize = 8, vec_len = 6, vec_capacity = 16\<rparr> 5 = Some ''4096''
   \<and> emits (payload 4096 7) []
        (do_write_file env0 1
          \<lparr>vec_data = Some [''write_file'', ''/d-01/f-00'', ''02'', ''0'', ''4096'', ''4096''],
           vec_unitsize = 8, vec_len = 6, vec_capacity = 16\<rparr> 7
          (world0 [Ok 1, Ok 3, Ok 4096, Ok 4096, Ok 0]))"
proof -
  have "emits (payload (nat (fst (strtoul 10 ''4096''))) (word_of_int (7 div 1)))
      (trace (world0 [Ok 1, Ok 3, Ok 4096, Ok 4096, Ok 0]))
      (do_write_file env0 1
          \<lparr>vec_data = Some [''write_file'', ''/d-01/f-00'', ''02'', ''0'', ''4096'', ''4096''],
           vec_unitsize = 8, vec_len = 6, vec_capacity = 16\<rparr> 7
          (world0 [Ok 1, Ok 3, Ok 4096, Ok 4096, Ok 0]))"
    by (rule do_write_file_payload [THEN conjunct1]) (simp_all add: vector_get_def)
  moreover have "nat (fst (strtoul 10 ''4096'')) = 4096"
    by (simp add: libc_simps)
  moreover have "trace (world0 [Ok 1, Ok 3, Ok 4096, Ok 4096, Ok 0]) = []"
    by (simp add: world0_def)
  ultimately show ?thesis
    by (simp add: vector_get_def)
qed

text \<open>The scenario of the claim: the offset that \<open>lseek\<close> is called with is 4096, not 0.\<close>

theorem do_write_file_offset_counterexample:
  "lseek_offsets (trace (world_of (do_write_file env0 1
      \<lparr>vec_data = Some [''write_file'', ''/d-01/f-00'', ''02'', ''0'', ''4096'', ''4096''],
       vec_unitsize = 8, vec_len = 6, vec_capacity = 16\<rparr> 7
      (world0 [Ok 1, Ok 3, Ok 4096, Ok 4096, Ok 0])))) = [4096]
   \<and> lseek_offsets (trace (world_of (do_write_file env0 1
      \<lparr>vec_data = Some [''write_file'', ''/d-01/f-00'', ''02'', ''0'', ''4096'', ''4096''],
       vec_unitsize = 8, vec_len = 6, vec_capacity = 16\<rparr> 7
      (world0 [Ok 1, Ok 3, Ok 4096, Ok 4096, Ok 0])))) \<noteq> [0]"
  using scenario_write [of "[]" "[]"] by (simp add: world0_def)

section \<open>The replay driver: properties\<close>

subsection \<open>Running the automaton along an execution\<close>

lemma run_append:
  "run p (a @ b) = (case run p a of None \<Rightarrow> None | Some p' \<Rightarrow> run p' b)"
  by (induction a arbitrary: p) (simp_all split: option.splits)

lemma run_stay:
  assumes "list_all q es" and "\<And>e. q e \<Longrightarrow> step p e = Some p"
  shows "run p es = Some p"
  using assms(1) by (induction es) (simp_all add: assms(2))

lemma answers_simps [simp]:
  "answers [] = []"
  "answers (e # es) = (case e of Sys c r \<Rightarrow> [r] | _ \<Rightarrow> []) @ answers es"
  "answers (a @ b) = answers a @ answers b"
  by (simp_all add: answers_def)

lemma trace_split:
  "take (length tr) t = tr \<longleftrightarrow> (\<exists>es. t = tr @ es)"
proof
  assume "take (length tr) t = tr"
  then have "t = tr @ drop (length tr) t"
    using append_take_drop_id [of "length tr" t] by simp
  then show "\<exists>es. t = tr @ es" ..
next
  assume "\<exists>es. t = tr @ es"
  then show "take (length tr) t = tr"
    by auto
qed

lemma proceeds_iff:
  "proceeds p Q tr rs r \<longleftrightarrow>
     (\<exists>es p'. trace (world_of r) = tr @ es \<and> rs = answers es @ responses (world_of r)
        \<and> run p es = Some p'
        \<and> (case r of Ret v w \<Rightarrow> Q v p' | Stop s w \<Rightarrow> stops p' s w))"
proof
  assume "proceeds p Q tr rs r"
  then have t: "take (length tr) (trace (world_of r)) = tr"
    and a: "rs = answers (drop (length tr) (trace (world_of r))) @ responses (world_of r)"
    and c: "case run p (drop (length tr) (trace (world_of r))) of None \<Rightarrow> False
      | Some p' \<Rightarrow> (case r of Ret v w \<Rightarrow> Q v p' | Stop s w \<Rightarrow> stops p' s w)"
    by (simp_all add: proceeds_def Let_def)
  from t obtain es where es: "trace (world_of r) = tr @ es"
    unfolding trace_split ..
  with a c show "\<exists>es p'. trace (world_of r) = tr @ es
        \<and> rs = answers es @ responses (world_of r) \<and> run p es = Some p'
        \<and> (case r of Ret v w \<Rightarrow> Q v p' | Stop s w \<Rightarrow> stops p' s w)"
    by (cases "run p es") auto
next
  assume "\<exists>es p'. trace (world_of r) = tr @ es
        \<and> rs = answers es @ responses (world_of r) \<and> run p es = Some p'
        \<and> (case r of Ret v w \<Rightarrow> Q v p' | Stop s w \<Rightarrow> stops p' s w)"
  then show "proceeds p Q tr rs r"
    by (auto simp: proceeds_def Let_def)
qed

lemma does_iff:
  "does q S tr rs r \<longleftrightarrow>
     (\<exists>es. trace (world_of r) = tr @ es \<and> rs = answers es @ responses (world_of r)
        \<and> list_all q es
        \<and> (case r of Ret v w \<Rightarrow> True | Stop s w \<Rightarrow> S s w))"
proof
  assume "does q S tr rs r"
  then have t: "take (length tr) (trace (world_of r)) = tr"
    and c: "rs = answers (drop (length tr) (trace (world_of r))) @ responses (world_of r)"
      "list_all q (drop (length tr) (trace (world_of r)))"
      "case r of Ret v w \<Rightarrow> True | Stop s w \<Rightarrow> S s w"
    by (simp_all add: does_def Let_def)
  from t obtain es where es: "trace (world_of r) = tr @ es"
    unfolding trace_split ..
  with c show "\<exists>es. trace (world_of r) = tr @ es
        \<and> rs = answers es @ responses (world_of r) \<and> list_all q es
        \<and> (case r of Ret v w \<Rightarrow> True | Stop s w \<Rightarrow> S s w)"
    by auto
next
  assume "\<exists>es. trace (world_of r) = tr @ es
        \<and> rs = answers es @ responses (world_of r) \<and> list_all q es
        \<and> (case r of Ret v w \<Rightarrow> True | Stop s w \<Rightarrow> S s w)"
  then show "does q S tr rs r"
    by (auto simp: does_def Let_def)
qed

lemma result_line:
  "es \<noteq> [] \<and> list_all quiet (butlast es) \<and> (case last es of Stdout s \<Rightarrow> True | _ \<Rightarrow> False)
     \<longleftrightarrow> (\<exists>es' s. es = es' @ [Stdout s] \<and> list_all quiet es')"
proof
  assume a: "es \<noteq> [] \<and> list_all quiet (butlast es)
    \<and> (case last es of Stdout s \<Rightarrow> True | _ \<Rightarrow> False)"
  then obtain s where "last es = Stdout s"
    by (cases "last es") simp_all
  with a have "es = butlast es @ [Stdout s]"
    using append_butlast_last_id [of es] by simp
  with a show "\<exists>es' s. es = es' @ [Stdout s] \<and> list_all quiet es'"
    by blast
next
  assume "\<exists>es' s. es = es' @ [Stdout s] \<and> list_all quiet es'"
  then show "es \<noteq> [] \<and> list_all quiet (butlast es)
    \<and> (case last es of Stdout s \<Rightarrow> True | _ \<Rightarrow> False)"
    by auto
qed

lemma handled_iff:
  "handled tr rs r \<longleftrightarrow>
     (\<exists>es. trace (world_of r) = tr @ es \<and> rs = answers es @ responses (world_of r)
        \<and> (case r of
              Ret v w \<Rightarrow> (\<exists>es' s. es = es' @ [Stdout s] \<and> list_all quiet es')
            | Stop s w \<Rightarrow> list_all quiet es \<and> crash s w))"
proof
  assume h: "handled tr rs r"
  then have t: "take (length tr) (trace (world_of r)) = tr"
    by (simp add: handled_def Let_def)
  then obtain es where es: "trace (world_of r) = tr @ es"
    unfolding trace_split ..
  with h show "\<exists>es. trace (world_of r) = tr @ es
        \<and> rs = answers es @ responses (world_of r)
        \<and> (case r of
              Ret v w \<Rightarrow> (\<exists>es' s. es = es' @ [Stdout s] \<and> list_all quiet es')
            | Stop s w \<Rightarrow> list_all quiet es \<and> crash s w)"
    by (cases r) (simp_all add: handled_def Let_def result_line)
next
  assume "\<exists>es. trace (world_of r) = tr @ es
        \<and> rs = answers es @ responses (world_of r)
        \<and> (case r of
              Ret v w \<Rightarrow> (\<exists>es' s. es = es' @ [Stdout s] \<and> list_all quiet es')
            | Stop s w \<Rightarrow> list_all quiet es \<and> crash s w)"
  then obtain es where es: "trace (world_of r) = tr @ es"
    and a: "rs = answers es @ responses (world_of r)"
    and c: "case r of
              Ret v w \<Rightarrow> (\<exists>es' s. es = es' @ [Stdout s] \<and> list_all quiet es')
            | Stop s w \<Rightarrow> list_all quiet es \<and> crash s w"
    by blast
  show "handled tr rs r"
  proof (cases r)
    case (Ret v w)
    with c have "es \<noteq> [] \<and> list_all quiet (butlast es)
      \<and> (case last es of Stdout s \<Rightarrow> True | _ \<Rightarrow> False)"
      unfolding result_line by simp
    with es a Ret show ?thesis
      by (simp add: handled_def Let_def)
  next
    case (Stop s w)
    with c es a show ?thesis
      by (simp add: handled_def Let_def)
  qed
qed

lemma stops_Pending:
  "stops p Pending w \<longleftrightarrow> responses w = [] \<and> p \<noteq> Doomed \<and> p \<noteq> NoLog"
  by (cases p) (simp_all add: stops_def)

lemma stops_Exited: "stops Doomed (Exited 1) w"
  by (simp add: stops_def)

lemma crash_stops:
  "crash s w \<Longrightarrow> stops (Unmounted n) s w" "crash s w \<Longrightarrow> stops (Mounted n) s w"
  by (cases s; simp add: crash_def stops_def)+

lemma proceeds_RetI:
  "trace w' = tr @ es \<Longrightarrow> rs = answers es @ responses w' \<Longrightarrow> run p es = Some p'
     \<Longrightarrow> Q v p' \<Longrightarrow> proceeds p Q tr rs (Ret v w')"
  by (auto simp: proceeds_iff)

lemma proceeds_StopI:
  "trace w' = tr @ es \<Longrightarrow> rs = answers es @ responses w' \<Longrightarrow> run p es = Some p'
     \<Longrightarrow> stops p' s w' \<Longrightarrow> proceeds p Q tr rs (Stop s w')"
  by (auto simp: proceeds_iff)

lemma proceeds_RetE:
  assumes "proceeds p Q tr rs (Ret v w')"
  obtains es p' where "trace w' = tr @ es" "rs = answers es @ responses w'"
    "run p es = Some p'" "Q v p'"
  using assms by (auto simp: proceeds_iff)

lemma proceeds_StopE:
  assumes "proceeds p Q tr rs (Stop s w')"
  obtains es p' where "trace w' = tr @ es" "rs = answers es @ responses w'"
    "run p es = Some p'" "stops p' s w'"
  using assms by (auto simp: proceeds_iff)

lemma proceeds_bind:
  assumes "proceeds p Q1 tr rs m"
    and "\<And>v w' p1. m = Ret v w' \<Longrightarrow> Q1 v p1
      \<Longrightarrow> proceeds p1 Q2 (trace w') (responses w') (f v w')"
  shows "proceeds p Q2 tr rs (bind m f)"
proof (cases m)
  case (Ret v w')
  from assms(1) Ret obtain es p1 where es: "trace w' = tr @ es"
    "rs = answers es @ responses w'" "run p es = Some p1" "Q1 v p1"
    by (auto elim: proceeds_RetE)
  have b: "bind m f = f v w'"
    by (simp add: Ret bind_def)
  show ?thesis
  proof (cases "f v w'")
    case (Ret v2 w2)
    with assms(2) [OF \<open>m = Ret v w'\<close> es(4)] obtain es' p'
      where "trace w2 = trace w' @ es'" "responses w' = answers es' @ responses w2"
        "run p1 es' = Some p'" "Q2 v2 p'"
      by (auto elim: proceeds_RetE)
    then show ?thesis
      unfolding b Ret by (intro proceeds_RetI [of _ _ "es @ es'" _ _ p']) (simp_all add: es run_append)
  next
    case (Stop s2 w2)
    with assms(2) [OF \<open>m = Ret v w'\<close> es(4)] obtain es' p'
      where "trace w2 = trace w' @ es'" "responses w' = answers es' @ responses w2"
        "run p1 es' = Some p'" "stops p' s2 w2"
      by (auto elim: proceeds_StopE)
    then show ?thesis
      unfolding b Stop by (intro proceeds_StopI [of _ _ "es @ es'" _ _ p']) (simp_all add: es run_append)
  qed
next
  case (Stop s w')
  with assms(1) show ?thesis
    by (simp add: proceeds_iff bind_def)
qed

lemma proceeds_Ret:
  "trace w' = tr \<Longrightarrow> responses w' = rs \<Longrightarrow> Q v p \<Longrightarrow> proceeds p Q tr rs (Ret v w')"
  by (auto simp: proceeds_iff)

lemma proceeds_Stop:
  "trace w' = tr \<Longrightarrow> responses w' = rs \<Longrightarrow> stops p s w' \<Longrightarrow> proceeds p Q tr rs (Stop s w')"
  by (auto simp: proceeds_iff)

lemma proceeds_if:
  "(c \<Longrightarrow> proceeds p Q tr rs a) \<Longrightarrow> (\<not> c \<Longrightarrow> proceeds p Q tr rs b)
     \<Longrightarrow> proceeds p Q tr rs (if c then a else b)"
  by simp

lemma proceeds_sys:
  assumes "trace w = tr" and "responses w = rs" and "p \<noteq> Doomed" and "p \<noteq> NoLog"
    and "\<And>v. \<exists>p'. step p (Sys c (Ok v)) = Some p' \<and> Q v p'"
    and "\<And>e. \<exists>p'. step p (Sys c (Err e)) = Some p' \<and> Q (- 1) p'"
  shows "proceeds p Q tr rs (sys c w)"
proof (cases "responses w")
  case Nil
  then show ?thesis
    using assms(1-4) by (auto simp: sys_def proceeds_iff stops_Pending)
next
  case (Cons r rs')
  show ?thesis
  proof (cases r)
    case (Ok v)
    from assms(5) [of v] obtain p' where p': "step p (Sys c (Ok v)) = Some p'" "Q v p'"
      by blast
    have s: "sys c w = Ret v (w\<lparr>responses := rs', trace := trace w @ [Sys c (Ok v)]\<rparr>)"
      by (simp add: sys_def Cons Ok)
    have rs: "rs = Ok v # rs'"
      using assms(2) Cons Ok by simp
    show ?thesis
      unfolding s
      by (rule proceeds_RetI [of _ _ "[Sys c (Ok v)]" _ _ p']) (simp_all add: assms(1) rs p')
  next
    case (Err e)
    from assms(6) [of e] obtain p' where p': "step p (Sys c (Err e)) = Some p'" "Q (- 1) p'"
      by blast
    have s: "sys c w
        = Ret (- 1) (w\<lparr>responses := rs', trace := trace w @ [Sys c (Err e)], errno := e\<rparr>)"
      by (simp add: sys_def Cons Err)
    have rs: "rs = Err e # rs'"
      using assms(2) Cons Err by simp
    show ?thesis
      unfolding s
      by (rule proceeds_RetI [of _ _ "[Sys c (Err e)]" _ _ p']) (simp_all add: assms(1) rs p')
  qed
qed

lemma proceeds_alloc:
  assumes "trace w = tr" and "responses w = rs" and "p \<noteq> Doomed" and "p \<noteq> NoLog"
    and "\<And>r. \<exists>p'. step p (Sys c r) = Some p' \<and> Q (non_null r) p'"
  shows "proceeds p Q tr rs (alloc c w)"
proof (cases "responses w")
  case Nil
  then show ?thesis
    using assms(1-4) by (auto simp: alloc_def proceeds_iff stops_Pending)
next
  case (Cons r rs')
  from assms(5) [of r] obtain p' where p': "step p (Sys c r) = Some p'" "Q (non_null r) p'"
    by blast
  have rs: "rs = r # rs'"
    using assms(2) Cons by simp
  show ?thesis
  proof (cases r)
    case (Ok v)
    have s: "alloc c w = Ret (non_null r) (w\<lparr>responses := rs', trace := trace w @ [Sys c r]\<rparr>)"
      by (simp add: alloc_def Cons Ok non_null_def)
    show ?thesis
      unfolding s
      by (rule proceeds_RetI [of _ _ "[Sys c r]" _ _ p']) (simp_all add: assms(1) rs p')
  next
    case (Err e)
    have s: "alloc c w
        = Ret (non_null r) (w\<lparr>responses := rs', trace := trace w @ [Sys c r], errno := e\<rparr>)"
      by (simp add: alloc_def Cons Err non_null_def)
    show ?thesis
      unfolding s
      by (rule proceeds_RetI [of _ _ "[Sys c r]" _ _ p']) (simp_all add: assms(1) rs p')
  qed
qed

lemma proceeds_out:
  assumes "trace w = tr" and "responses w = rs" and "answers [e] = []"
    and "step p e = Some p'" and "Q () p'"
  shows "proceeds p Q tr rs (out e w)"
  unfolding out_def
  by (intro proceeds_RetI [of _ _ "[e]" _ _ p']) (simp_all add: assms del: answers_simps)

lemma proceeds_bind_to:
  assumes "proceeds p (\<lambda>v p'. p' = p1) tr rs m"
    and "\<And>v w'. m = Ret v w' \<Longrightarrow> proceeds p1 Q (trace w') (responses w') (f v w')"
  shows "proceeds p Q tr rs (bind m f)"
  using assms(1) by (rule proceeds_bind) (simp add: assms(2))

lemma proceeds_out_to:
  "trace w = tr \<Longrightarrow> responses w = rs \<Longrightarrow> answers [e] = [] \<Longrightarrow> step p e = Some p'
     \<Longrightarrow> proceeds p (\<lambda>v p1. p1 = p') tr rs (out e w)"
  by (rule proceeds_out) simp_all

lemma proceeds_sys_stay:
  "trace w = tr \<Longrightarrow> responses w = rs \<Longrightarrow> p \<noteq> Doomed \<Longrightarrow> p \<noteq> NoLog
     \<Longrightarrow> (\<And>r. step p (Sys c r) = Some p)
     \<Longrightarrow> proceeds p (\<lambda>v p'. p' = p) tr rs (sys c w)"
  by (rule proceeds_sys) simp_all

lemma proceeds_alloc_stay:
  "trace w = tr \<Longrightarrow> responses w = rs \<Longrightarrow> p \<noteq> Doomed \<Longrightarrow> p \<noteq> NoLog
     \<Longrightarrow> (\<And>r. step p (Sys c r) = Some p)
     \<Longrightarrow> proceeds p (\<lambda>v p'. p' = p) tr rs (alloc c w)"
  by (rule proceeds_alloc) simp_all

subsection \<open>Executions that stay in one phase\<close>

lemma does_Ret: "trace w' = tr \<Longrightarrow> responses w' = rs \<Longrightarrow> does q S tr rs (Ret v w')"
  by (auto simp: does_iff)

lemma does_Stop:
  "trace w' = tr \<Longrightarrow> responses w' = rs \<Longrightarrow> S s w' \<Longrightarrow> does q S tr rs (Stop s w')"
  by (auto simp: does_iff)

lemma does_sys:
  "trace w = tr \<Longrightarrow> responses w = rs \<Longrightarrow> (\<And>r. q (Sys c r))
     \<Longrightarrow> (\<And>w'. responses w' = [] \<Longrightarrow> S Pending w')
     \<Longrightarrow> does q S tr rs (sys c w)"
  by (auto simp: does_iff sys_def split: list.splits response.splits)

lemma does_alloc:
  "trace w = tr \<Longrightarrow> responses w = rs \<Longrightarrow> (\<And>r. q (Sys c r))
     \<Longrightarrow> (\<And>w'. responses w' = [] \<Longrightarrow> S Pending w')
     \<Longrightarrow> does q S tr rs (alloc c w)"
  by (auto simp: does_iff alloc_def split: list.splits response.splits)

lemma does_out:
  "trace w = tr \<Longrightarrow> responses w = rs \<Longrightarrow> answers [e] = [] \<Longrightarrow> q e
     \<Longrightarrow> does q S tr rs (out e w)"
  by (auto simp: does_iff out_def simp del: answers_simps)

lemma does_bind:
  assumes "does q S tr rs m"
    and "\<And>v w'. m = Ret v w' \<Longrightarrow> does q S (trace w') (responses w') (f v w')"
  shows "does q S tr rs (bind m f)"
proof (cases m)
  case (Ret v w')
  from assms(1) Ret obtain es where es: "trace w' = tr @ es"
    "rs = answers es @ responses w'" "list_all q es"
    by (auto simp: does_iff)
  from assms(2) [OF Ret] obtain es'
    where es': "trace (world_of (f v w')) = trace w' @ es'"
      "responses w' = answers es' @ responses (world_of (f v w'))" "list_all q es'"
      and s: "case f v w' of Ret v w \<Rightarrow> True | Stop s w \<Rightarrow> S s w"
    by (auto simp: does_iff)
  show ?thesis
    unfolding does_iff
    by (rule exI [of _ "es @ es'"]) (simp add: Ret bind_def es es' s)
next
  case (Stop s w')
  with assms(1) show ?thesis
    by (simp add: does_iff bind_def)
qed

lemma does_if:
  "(c \<Longrightarrow> does q S tr rs a) \<Longrightarrow> (\<not> c \<Longrightarrow> does q S tr rs b)
     \<Longrightarrow> does q S tr rs (if c then a else b)"
  by simp

lemma does_option:
  "(x = None \<Longrightarrow> does q S tr rs a) \<Longrightarrow> (\<And>y. x = Some y \<Longrightarrow> does q S tr rs (b y))
     \<Longrightarrow> does q S tr rs (case x of None \<Rightarrow> a | Some y \<Rightarrow> b y)"
  by (cases x) simp_all

lemma does_case_prod:
  "(\<And>a b. x = (a, b) \<Longrightarrow> does q S tr rs (f a b w)) \<Longrightarrow> does q S tr rs (case_prod f x w)"
  by (cases x) simp

lemma does_case_prod2:
  "(\<And>a b. x = (a, b) \<Longrightarrow> does q S tr rs (f a b)) \<Longrightarrow> does q S tr rs (case_prod f x)"
  by (cases x) simp

lemma does_field:
  "trace w = tr \<Longrightarrow> responses w = rs \<Longrightarrow> (\<And>w'. S Segfault w')
     \<Longrightarrow> does q S tr rs (field vec i w)"
  by (auto simp: field_def does_iff split: option.splits)

lemma responses_conv [simp]: "responses (snd (conv r w)) = responses w"
  by (simp add: conv_def)

lemmas does_intros = does_bind does_if does_sys does_alloc does_out does_Ret does_Stop does_field

lemma proceeds_does:
  assumes "does q S tr rs r" and "\<And>e. q e \<Longrightarrow> step p e = Some p"
    and "\<And>s w. S s w \<Longrightarrow> stops p s w"
  shows "proceeds p (\<lambda>v p'. p' = p) tr rs r"
proof -
  from assms(1) obtain es where es: "trace (world_of r) = tr @ es"
    "rs = answers es @ responses (world_of r)" "list_all q es"
    and s: "case r of Ret v w \<Rightarrow> True | Stop s w \<Rightarrow> S s w"
    by (auto simp: does_iff)
  from run_stay [OF es(3) assms(2)] have "run p es = Some p"
    by simp
  with es(1,2) s show ?thesis
    by (cases r) (auto simp: proceeds_iff assms(3))
qed

lemma does_write_file:
  assumes "trace w = tr" and "responses w = rs"
    and "\<And>r. q (Sys (Open p f O_RDWR) r)"
    and "\<And>fd r. q (Sys (Lseek fd off SEEK_SET) r)"
    and "\<And>fd r. q (Sys (Write fd (map d [0 ..< l])) r)"
    and "\<And>fd r. q (Sys (Close fd) r)"
    and "\<And>s. q (Stderr s)"
    and "\<And>w'. responses w' = [] \<Longrightarrow> S Pending w'"
  shows "does q S tr rs (write_file p f d off l w)"
  unfolding write_file_def Let_def
  by (intro does_intros assms; simp)

lemma does_create_file:
  assumes "trace w = tr" and "responses w = rs"
    and "\<And>r. q (Sys (Open p f m) r)"
    and "\<And>fd r. q (Sys (Close fd) r)"
    and "\<And>w'. responses w' = [] \<Longrightarrow> S Pending w'"
  shows "does q S tr rs (create_file p f m w)"
  unfolding create_file_def
  by (intro does_intros assms; simp)

lemma does_vector_add:
  assumes "trace w = tr" and "responses w = rs" and "\<And>n r. q (Sys (Realloc n) r)"
    and "\<And>w'. responses w' = [] \<Longrightarrow> S Pending w'" and "\<And>w'. S Segfault w'"
  shows "does q S tr rs (vector_add vec el w)"
  unfolding vector_add_def vector_expand_def Let_def split_beta
  by (intro does_intros does_option assms; simp add: assms)

lemma does_fields_loop:
  assumes "\<And>n r. q (Sys (Malloc n) r)" and "\<And>n r. q (Sys (Realloc n) r)"
    and "\<And>w'. responses w' = [] \<Longrightarrow> S Pending w'" and "\<And>w'. S Segfault w'"
    and "\<And>w'. S Aborted w'"
  shows "does q S (trace w) (responses w) (fields_loop vec t w)"
proof (induction vec t w rule: fields_loop.induct)
  case (1 vec w)
  show ?case
    by (simp add: fields_loop.simps does_Ret)
next
  case (2 vec fld rest w)
  show ?case
    unfolding fields_loop.simps
  proof (intro does_bind does_if does_alloc does_Stop does_vector_add does_case_prod assms)
    fix v w' va w'a a b
    assume "alloc (Malloc (length fld + 1)) w = Ret v w'" and "\<not> \<not> v"
      and "vector_add vec fld w' = Ret va w'a" and "va = (a, b)"
    then show "does q S (trace w'a) (responses w'a) (fields_loop b (strtok rest '', '') w'a)"
      by (intro "2.IH" [of v w' va w'a a b]) simp_all
  qed simp_all
qed

lemma does_extract_fields:
  assumes "\<And>n m r. q (Sys (Calloc n m) r)"
    and "\<And>n r. q (Sys (Malloc n) r)" and "\<And>n r. q (Sys (Realloc n) r)"
    and "\<And>w'. responses w' = [] \<Longrightarrow> S Pending w'" and "\<And>w'. S Segfault w'"
    and "\<And>w'. S Aborted w'"
  shows "does q S (trace w) (responses w) (extract_fields line delim w)"
  unfolding extract_fields_def vector_init_def Let_def
  by (intro does_intros does_fields_loop assms; simp)

subsection \<open>The handlers\<close>

text \<open>Every handler adds quiet events and, when it returns, its result line.\<close>

lemma handled_bind:
  assumes "does quiet crash tr rs m"
    and "\<And>v w'. m = Ret v w' \<Longrightarrow> handled (trace w') (responses w') (f v w')"
  shows "handled tr rs (bind m f)"
proof (cases m)
  case (Ret v w')
  from assms(1) Ret obtain es where es: "trace w' = tr @ es"
    "rs = answers es @ responses w'" "list_all quiet es"
    by (auto simp: does_iff)
  have b: "bind m f = f v w'"
    by (simp add: Ret bind_def)
  show ?thesis
  proof (cases "f v w'")
    case (Ret v2 w2)
    with assms(2) [OF \<open>m = Ret v w'\<close>] obtain es' s
      where "trace w2 = trace w' @ es' @ [Stdout s]"
        "responses w' = answers (es' @ [Stdout s]) @ responses w2" "list_all quiet es'"
      by (auto simp: handled_iff)
    then show ?thesis
      unfolding b Ret handled_iff
      by (intro exI [of _ "es @ es' @ [Stdout s]"]) (auto simp: es intro: exI [of _ "es @ es'"])
  next
    case (Stop s2 w2)
    with assms(2) [OF \<open>m = Ret v w'\<close>] obtain es'
      where "trace w2 = trace w' @ es'" "responses w' = answers es' @ responses w2"
        "list_all quiet es'" "crash s2 w2"
      by (auto simp: handled_iff)
    then show ?thesis
      unfolding b Stop handled_iff
      by (intro exI [of _ "es @ es'"]) (simp add: es)
  qed
next
  case (Stop s w')
  with assms(1) show ?thesis
    by (simp add: does_iff handled_iff bind_def)
qed

lemma handled_Stop:
  "trace w = tr \<Longrightarrow> responses w = rs \<Longrightarrow> crash s w \<Longrightarrow> handled tr rs (Stop s w)"
  by (auto simp: handled_iff)

lemma handled_if:
  "(c \<Longrightarrow> handled tr rs a) \<Longrightarrow> (\<not> c \<Longrightarrow> handled tr rs b)
     \<Longrightarrow> handled tr rs (if c then a else b)"
  by simp

lemma handled_report:
  "trace w = tr \<Longrightarrow> responses w = rs \<Longrightarrow> handled tr rs (report a ret b w)"
  by (auto simp: handled_iff report_def bind_def out_def)

lemma handled_unrecognized:
  "handled (trace w) (responses w) (bind (out (Stdout s) w) (\<lambda>_ w. Ret (0::int) w))"
  by (simp add: handled_iff bind_def out_def)

lemmas handled_intros = handled_bind handled_if handled_report handled_Stop
  does_field does_sys does_alloc does_write_file does_create_file

lemma handled_do_create_file: "handled (trace w) (responses w) (do_create_file env argvec w)"
  unfolding do_create_file_def Let_def split_beta
  by (intro handled_intros; simp add: quiet_def crash_def)

lemma handled_do_write_file: "handled (trace w) (responses w) (do_write_file env nfs argvec seq w)"
  unfolding do_write_file_def Let_def split_beta generate_data_BYTE_REPEAT option.case prod.case
  by (intro handled_intros; simp add: quiet_def crash_def)

lemma handled_do_truncate: "handled (trace w) (responses w) (do_truncate env argvec w)"
  unfolding do_truncate_def Let_def split_beta
  by (intro handled_intros; simp add: quiet_def crash_def)

lemma handled_do_unlink: "handled (trace w) (responses w) (do_unlink env argvec w)"
  unfolding do_unlink_def Let_def split_beta
  by (intro handled_intros; simp add: quiet_def crash_def)

lemma handled_do_symlink: "handled (trace w) (responses w) (do_symlink env argvec w)"
  unfolding do_symlink_def Let_def split_beta
  by (intro handled_intros; simp add: quiet_def crash_def)

lemma handled_do_link: "handled (trace w) (responses w) (do_link env argvec w)"
  unfolding do_link_def Let_def split_beta
  by (intro handled_intros; simp add: quiet_def crash_def)

lemma handled_do_mkdir: "handled (trace w) (responses w) (do_mkdir env argvec w)"
  unfolding do_mkdir_def Let_def split_beta
  by (intro handled_intros; simp add: quiet_def crash_def)

lemma handled_do_rmdir: "handled (trace w) (responses w) (do_rmdir env argvec w)"
  unfolding do_rmdir_def Let_def split_beta
  by (intro handled_intros; simp add: quiet_def crash_def)

lemma handled_do_setxattr: "handled (trace w) (responses w) (do_setxattr env argvec w)"
  unfolding do_setxattr_def Let_def split_beta
  by (intro handled_intros; simp add: quiet_def crash_def)

lemma handled_do_removexattr: "handled (trace w) (responses w) (do_removexattr env argvec w)"
  unfolding do_removexattr_def Let_def split_beta
  by (intro handled_intros; simp add: quiet_def crash_def)

lemma handled_do_chown: "handled (trace w) (responses w) (do_chown env argvec w)"
  unfolding do_chown_def Let_def split_beta
  by (intro handled_intros; simp add: quiet_def crash_def)

lemma handled_do_chgrp: "handled (trace w) (responses w) (do_chgrp env argvec w)"
  unfolding do_chgrp_def Let_def split_beta
  by (intro handled_intros; simp add: quiet_def crash_def)

lemma handled_do_chmod: "handled (trace w) (responses w) (do_chmod env argvec w)"
  unfolding do_chmod_def Let_def split_beta
  by (intro handled_intros; simp add: quiet_def crash_def)

lemma handled_dispatch: "handled (trace w) (responses w) (dispatch env nfs argvec funcname len seq w)"
  unfolding dispatch_def
  by (intro handled_if handled_do_create_file handled_do_write_file handled_do_truncate
      handled_do_unlink handled_do_symlink handled_do_link handled_do_mkdir handled_do_rmdir
      handled_do_setxattr handled_do_removexattr handled_do_chown handled_do_chgrp
      handled_do_chmod handled_unrecognized)

lemma step_quiet: "quiet e \<Longrightarrow> step (Mounted n) e = Some (Mounted n)"
  by (cases e) (simp_all add: quiet_def)

lemma proceeds_handled:
  assumes "handled tr rs r"
  shows "proceeds (Mounted n) (\<lambda>v p. p = Dispatched n) tr rs r"
proof (cases r)
  case (Ret v w)
  with assms obtain es' s where es: "trace w = tr @ es' @ [Stdout s]"
    "rs = answers (es' @ [Stdout s]) @ responses w" "list_all quiet es'"
    by (auto simp: handled_iff)
  have "run (Mounted n) es' = Some (Mounted n)"
    using es(3) by (rule run_stay) (rule step_quiet)
  then have "run (Mounted n) (es' @ [Stdout s]) = Some (Dispatched n)"
    by (simp add: run_append)
  with es(1,2) show ?thesis
    unfolding Ret by (intro proceeds_RetI [of _ _ "es' @ [Stdout s]"]) simp_all
next
  case (Stop s w)
  with assms obtain es where es: "trace w = tr @ es" "rs = answers es @ responses w"
    "list_all quiet es" "crash s w"
    by (auto simp: handled_iff)
  have "run (Mounted n) es = Some (Mounted n)"
    using es(3) by (rule run_stay) (rule step_quiet)
  with es(1,2) crash_stops(2) [OF es(4)] show ?thesis
    unfolding Stop by (intro proceeds_StopI [of _ _ es]) simp_all
qed

subsection \<open>The mount\<close>

lemma does_undo_mounts:
  "does (\<lambda>e. step Failed e = Some Failed) (\<lambda>s w. s = Pending \<and> responses w = [])
     (trace w) (responses w) (undo_mounts k w)"
proof (induction k arbitrary: w)
  case 0
  show ?case
    by (simp add: does_Ret)
next
  case (Suc k)
  show ?case
    unfolding undo_mounts.simps
    by (intro does_bind does_sys Suc) simp_all
qed

lemma proceeds_undo_mounts:
  "proceeds Failed (\<lambda>v p'. p' = Failed) (trace w) (responses w) (undo_mounts k w)"
  using does_undo_mounts by (rule proceeds_does) (simp_all add: stops_Pending)

lemma proceeds_mountall:
  assumes "\<And>r. step p (Sys (Mount device basepath fsys MS_NOATIME []) r)
      = Some (if r = Ok 0 then pm else Failed)"
    and "p \<noteq> Doomed" and "p \<noteq> NoLog"
  shows "proceeds p (\<lambda>v p'. p' = pm) (trace w) (responses w) (mountall env w)"
  unfolding mountall_def Let_def
proof (rule proceeds_bind [where ?Q1.0 = "\<lambda>ret p'. if ret = 0 then p' = pm else p' = Failed"])
  show "proceeds p (\<lambda>ret p'. if ret = 0 then p' = pm else p' = Failed) (trace w) (responses w)
     (sys (Mount device basepath fsys MS_NOATIME []) w)"
    by (rule proceeds_sys) (auto simp: assms)
next
  fix ret w' p1
  assume p1: "if ret = 0 then p1 = pm else p1 = Failed"
  show "proceeds p1 (\<lambda>v p'. p' = pm) (trace w') (responses w')
     (if ret \<noteq> 0
      then bind (undo_mounts (nat (failpos env)) w') (\<lambda>_ w.
             bind (out (Stderr (''Could not mount file system '' @ fsys @ '' in '' @ device
                     @ '' at '' @ basepath @ '' ('' @ strerror env (errno w') @ '')'' @ nl)) w)
               (\<lambda>_ w. Stop (Exited 1) w))
      else Ret () w')"
  proof (cases "ret = 0")
    case True
    with p1 show ?thesis
      by (simp add: proceeds_Ret)
  next
    case False
    with p1 have p1: "p1 = Failed"
      by simp
    have "proceeds Failed (\<lambda>v p'. p' = pm) (trace w') (responses w')
      (bind (undo_mounts (nat (failpos env)) w') (\<lambda>_ w.
             bind (out (Stderr (''Could not mount file system '' @ fsys @ '' in '' @ device
                     @ '' at '' @ basepath @ '' ('' @ strerror env (errno w') @ '')'' @ nl)) w)
               (\<lambda>_ w. Stop (Exited 1) w)))"
      apply (rule proceeds_bind_to [OF proceeds_undo_mounts])
      apply (rule proceeds_bind_to [where ?p1.0 = Doomed])
       apply (rule proceeds_out_to)
        apply simp_all
      apply (rule proceeds_Stop)
       apply (simp_all add: stops_Exited)
      done
    with False p1 show ?thesis
      by simp
  qed
qed

subsection \<open>The unmount\<close>

lemma step_unmounting:
  "step (if hf then Troubled else Leaving m) (Sys (Umount2 basepath 0) r)
     = Some (if r = Ok 0 then (if hf then Doomed else Unmounted m)
             else (if hf then Troubled else Leaving m))"
  "step (if hf then Troubled else Leaving m) (Sys (Usleep u) r)
     = Some (if hf then Troubled else Leaving m)"
  "step (if hf then Troubled else Leaving m) (Stderr (''File system '' @ x))
     = Some (if hf then Troubled else Leaving m)"
  "step (if hf then Troubled else Leaving m) (Stderr (''Could not unmount file system '' @ x))
     = Some Troubled"
  "step (if hf then Troubled else Leaving m) (Stderr (''Failed to unmount file system '' @ x))
     = Some Doomed"
  by (simp_all add: starts_def)

lemma proceeds_unmount_loop:
  assumes st: "\<And>r. step pd (Sys (Umount2 basepath 0) r)
      = Some (if r = Ok 0 then Unmounted m else Leaving m)"
    and pd: "pd \<noteq> Doomed" "pd \<noteq> NoLog"
  shows "0 \<le> retry_limit
    \<Longrightarrow> (\<not> has_failure \<and> 0 < retry_limit \<and> p = pd)
        \<or> p = (if has_failure then Troubled else Leaving m)
    \<Longrightarrow> proceeds p
         (\<lambda>r p'. 0 \<le> fst r
            \<and> p' = (if 0 < fst r then (if snd r then Doomed else Unmounted m)
                    else (if snd r then Troubled else Leaving m)))
         (trace w) (responses w) (unmount_loop env retry_limit num_retries has_failure w)"
proof (induction env retry_limit num_retries has_failure w arbitrary: p rule: unmount_loop.induct)
  case (1 env retry_limit num_retries has_failure w)
  let ?pl = "if has_failure then Troubled else Leaving m"
  show ?case
  proof (cases "0 < retry_limit")
    case False
    with "1.prems" have "retry_limit = 0" and "p = ?pl"
      by auto
    then show ?thesis
      by (subst unmount_loop.simps) (simp add: proceeds_Ret)
  next
    case True
    have stp: "step p (Sys (Umount2 basepath 0) r)
        = Some (if r = Ok 0 then (if has_failure then Doomed else Unmounted m) else ?pl)" for r
      using "1.prems"(2) st [of r] step_unmounting(1) [of has_failure m r] by auto
    have pp: "p \<noteq> Doomed" "p \<noteq> NoLog"
      using "1.prems"(2) pd by (auto split: if_splits)
    show ?thesis
      apply (subst unmount_loop.simps)
      apply (simp only: True if_True Let_def)
      apply (rule proceeds_bind [where ?Q1.0 =
            "\<lambda>ret p1. p1 = (if ret = 0 then (if has_failure then Doomed else Unmounted m)
                            else (if has_failure then Troubled else Leaving m))"])
       apply (rule proceeds_sys; simp add: stp pp)
      subgoal premises prems for ret w1 p1
      proof -
        consider (ok) "ret = 0" | (busy) "ret \<noteq> 0" "errno w1 = EBUSY"
          | (other) "ret \<noteq> 0" "errno w1 \<noteq> EBUSY"
          by blast
        then show ?thesis
        proof cases
          case ok
          with prems True show ?thesis
            by (simp add: proceeds_Ret)
        next
          case busy
          with prems have p1: "p1 = ?pl"
            by simp
          have rl: "0 \<le> retry_limit - 1"
            using True by simp
          show ?thesis
            unfolding p1
            apply (simp only: busy if_True if_False simp_thms)
            apply (rule proceeds_bind_to [where ?p1.0 = ?pl])
             apply (rule proceeds_out_to)
                apply (rule refl)
               apply (rule refl)
              apply simp
             apply (rule step_unmounting(3))
            apply (rule proceeds_bind_to [where ?p1.0 = ?pl])
             apply (rule proceeds_sys_stay)
                 apply (rule refl)
                apply (rule refl)
               apply simp
              apply simp
             apply (rule step_unmounting(2))
            apply (rule "1.IH"(1) [OF True prems(1) busy(1) busy(2) refl _ _ rl])
              apply assumption
             apply assumption
            apply simp
            done
        next
          case other
          with prems have p1: "p1 = ?pl"
            by simp
          show ?thesis
            unfolding p1
            apply (simp only: other if_True if_False simp_thms)
            apply (rule proceeds_bind_to [where ?p1.0 = Troubled])
             apply (rule proceeds_out_to)
                apply (rule refl)
               apply (rule refl)
              apply simp
             apply (rule step_unmounting(4))
            apply (rule "1.IH"(2) [OF True prems(1) other(1) other(2) _ "1.prems"(1)])
             apply assumption
            apply simp
            done
        qed
      qed
      done
  qed
qed

lemma proceeds_unmount_all:
  assumes st: "\<And>r. step pd (Sys (Umount2 basepath 0) r)
      = Some (if r = Ok 0 then Unmounted m else Leaving m)"
    and pd: "pd \<noteq> Doomed" "pd \<noteq> NoLog"
  shows "proceeds pd (\<lambda>v p. p = Unmounted m) (trace w) (responses w) (unmount_all env True w)"
  unfolding unmount_all_def
proof (rule proceeds_bind [OF proceeds_unmount_loop [of pd m, OF st pd]])
  show "(0::int) \<le> 19"
    by simp
  show "(\<not> False \<and> (0::int) < 19 \<and> pd = pd) \<or> pd = (if False then Troubled else Leaving m)"
    by simp
next
  fix r :: "int \<times> bool" and w' p1
  assume p1: "0 \<le> fst r
    \<and> p1 = (if 0 < fst r then (if snd r then Doomed else Unmounted m)
            else (if snd r then Troubled else Leaving m))"
  obtain retry_limit has_failure where r: "r = (retry_limit, has_failure)"
    by (cases r)
  show "proceeds p1 (\<lambda>v p. p = Unmounted m) (trace w') (responses w')
     ((case r of
         (retry_limit, has_failure) \<Rightarrow> \<lambda>w.
           bind (if retry_limit = 0
                 then bind (out (Stderr (''Failed to unmount file system '' @ fsys @ '' at ''
                              @ basepath @ '' after retries.'' @ nl)) w) (\<lambda>_ w. Ret True w)
                 else Ret has_failure w) (\<lambda>has_failure w.
             if has_failure \<and> True then Stop (Exited 1) w else Ret () w)) w')"
  proof (cases "retry_limit = 0")
    case True
    with p1 r have p1': "p1 = (if has_failure then Troubled else Leaving m)"
      by simp
    have "proceeds (if has_failure then Troubled else Leaving m) (\<lambda>v p. p = Unmounted m) (trace w') (responses w')
       (bind (bind (out (Stderr (''Failed to unmount file system '' @ fsys @ '' at ''
                              @ basepath @ '' after retries.'' @ nl)) w') (\<lambda>_ w. Ret True w))
          (\<lambda>has_failure w. if has_failure \<and> True then Stop (Exited 1) w else Ret () w))"
      apply (rule proceeds_bind [where ?Q1.0 = "\<lambda>hf p. hf \<and> p = Doomed"])
       apply (rule proceeds_bind [where ?Q1.0 = "\<lambda>v p. p = Doomed"])
        apply (rule proceeds_out_to)
           apply (rule refl)
          apply (rule refl)
         apply simp
        apply (rule step_unmounting(5))
       apply (rule proceeds_Ret; simp)
      apply (simp add: proceeds_Stop stops_Exited)
      done
    then show ?thesis
      by (simp add: r True p1')
  next
    case False
    with p1 r have pos: "0 < retry_limit"
      and p1': "p1 = (if has_failure then Doomed else Unmounted m)"
      by auto
    show ?thesis
      using False by (cases has_failure)
        (simp_all add: r p1' bind_def proceeds_Stop proceeds_Ret stops_Exited)
  qed
qed

subsection \<open>The replay loop\<close>

lemma proceeds_extract_fields:
  "proceeds (Unmounted n) (\<lambda>v p'. p' = Unmounted n) (trace w) (responses w) (extract_fields line delim w)"
  apply (rule proceeds_does [where q = "\<lambda>e. step (Unmounted n) e = Some (Unmounted n)" and S = crash])
    apply (rule does_extract_fields; simp add: crash_def)
   apply assumption
  apply (rule crash_stops)
  apply assumption
  done

lemma proceeds_field:
  "proceeds (Unmounted n) (\<lambda>v p'. p' = Unmounted n) (trace w) (responses w) (field vec i w)"
  apply (rule proceeds_does [where q = "\<lambda>e. step (Unmounted n) e = Some (Unmounted n)" and S = crash])
    apply (rule does_field; simp add: crash_def)
   apply assumption
  apply (rule crash_stops)
  apply assumption
  done

lemma proceeds_replay_loop:
  "seq \<le> INT_MAX
   \<Longrightarrow> proceeds (Unmounted seq)
         (\<lambda>seq' p. seq' = seq + int (length lines) \<and> seq' \<le> INT_MAX \<and> p = Unmounted seq')
         (trace w) (responses w) (replay_loop env nfs lines seq w)"
proof (induction lines arbitrary: seq w)
  case Nil
  then show ?case
    by (simp add: replay_loop.simps proceeds_Ret)
next
  case (Cons linebuf rest)
  have rec: "proceeds (Unmounted (seq + 1))
      (\<lambda>seq' p. seq' = seq + int (length (linebuf # rest)) \<and> seq' \<le> INT_MAX
         \<and> p = Unmounted seq')
      (trace w') (responses w') (replay_loop env nfs rest (seq + 1) (w'\<lparr>errno := 0\<rparr>))"
    if "seq \<noteq> INT_MAX" for w'
  proof -
    from that Cons.prems have "seq + 1 \<le> INT_MAX"
      by simp
    from Cons.IH [OF this, of "w'\<lparr>errno := 0\<rparr>"] show ?thesis
      by (simp add: add.assoc)
  qed
  show ?case
    unfolding replay_loop.simps Let_def
    apply (rule proceeds_if)
     apply (rule proceeds_Stop; simp add: stops_def)
    apply (rule proceeds_bind_to [where ?p1.0 = "Unmounted seq"])
     apply (rule proceeds_alloc_stay; simp)
    apply (rule proceeds_if)
     apply (rule proceeds_Stop; simp add: stops_def)
    apply (rule proceeds_bind_to [where ?p1.0 = "Unmounted seq"])
     apply (rule proceeds_out_to; simp)
    apply (rule proceeds_bind_to [where ?p1.0 = "Unmounted seq"])
     apply (rule proceeds_extract_fields)
    apply (rule proceeds_bind_to [where ?p1.0 = "Unmounted seq"])
     apply (rule proceeds_field)
    apply (rule proceeds_bind_to [where ?p1.0 = "Mounted seq"])
     apply (rule proceeds_mountall; simp)
    apply (rule proceeds_bind_to [where ?p1.0 = "Dispatched seq"])
     apply (rule proceeds_handled)
     apply (rule handled_dispatch)
    apply (rule proceeds_if)
     apply (rule proceeds_Stop; simp add: stops_def)
    apply (rule proceeds_bind_to [where ?p1.0 = "Unmounted (seq + 1)"])
     apply (rule proceeds_unmount_all; simp)
    apply (rule rec)
    apply assumption
    done
qed

subsection \<open>The bootstrap and the driver\<close>

lemma does_mkdir_loop_aux:
  assumes "\<And>p m r. q (Sys (Mkdir p m) r)" and "\<And>w'. responses w' = [] \<Longrightarrow> S Pending w'"
  shows "does q S (trace w) (responses w) (mkdir_loop path dir_mode p next_f next_d w)"
proof (induction path dir_mode p next_f next_d w rule: mkdir_loop.induct)
  case (1 path dir_mode p next_f next_d w)
  show ?case
    apply (subst mkdir_loop.simps)
    apply (rule does_if)
     apply (rule does_if)
      apply (rule does_bind)
       apply (rule does_sys; simp add: assms)
      apply (rule does_if)
       apply (rule does_Ret; simp)
      apply (rule does_if)
       apply (rule "1.IH"(1); (assumption | simp))
      apply (rule does_if)
       apply (rule "1.IH"(2); (assumption | simp))
      apply (rule "1.IH"(3); (assumption | simp))
     apply (rule "1.IH"(4); (assumption | simp))
    apply (rule does_Ret; simp)
    done
qed

lemma does_mkdir_loop:
  assumes "trace w = tr" and "responses w = rs" and "\<And>p m r. q (Sys (Mkdir p m) r)"
    and "\<And>w'. responses w' = [] \<Longrightarrow> S Pending w'"
  shows "does q S tr rs (mkdir_loop path dir_mode p next_f next_d w)"
  using does_mkdir_loop_aux [of q S w, OF assms(3,4)] assms(1,2) by simp

lemma does_mkdir_p:
  assumes "path \<noteq> []"
    and "\<And>p m r. q (Sys (Mkdir p m) r)" and "\<And>p m r. q (Sys (Creat p m) r)"
    and "\<And>fd r. q (Sys (Close fd) r)"
    and "\<And>w'. responses w' = [] \<Longrightarrow> S Pending w'"
  shows "does q S (trace w) (responses w) (mkdir_p path dir_mode file_mode w)"
proof -
  have l: "(length path = 0) = False"
    using assms(1) by simp
  show ?thesis
    unfolding mkdir_p_def Let_def l if_False
    by (intro does_intros does_option does_case_prod2 does_mkdir_loop assms(2-5); simp)
qed

lemma proceeds_mkdir_p:
  assumes "path \<noteq> []"
  shows "proceeds Booting (\<lambda>v p'. p' = Booting) (trace w) (responses w) (mkdir_p path dir_mode file_mode w)"
  apply (rule proceeds_does [where q = "\<lambda>e. step Booting e = Some Booting"
        and S = "\<lambda>s w. s = Pending \<and> responses w = []"])
    apply (rule does_mkdir_p [OF assms]; simp)
   apply assumption
  apply (simp add: stops_Pending)
  done

lemma proceeds_bootstrap_loop:
  "pre + int (length paths) \<le> INT_MAX
   \<Longrightarrow> proceeds Booting (\<lambda>v p. p = Booting) (trace w) (responses w) (bootstrap_loop paths pre w)"
proof (induction paths arbitrary: pre w)
  case Nil
  show ?case
    by (simp add: bootstrap_loop.simps proceeds_Ret)
next
  case (Cons line rest)
  have ne: "basepath @ line \<noteq> []"
    by (simp add: basepath_def)
  from Cons.prems have pre: "pre \<noteq> INT_MAX" and rest: "pre + 1 + int (length rest) \<le> INT_MAX"
    by simp_all
  show ?case
    unfolding bootstrap_loop.simps Let_def
    apply (rule proceeds_bind_to [where ?p1.0 = Booting])
     apply (rule proceeds_out_to; simp)
    apply (rule proceeds_bind_to [where ?p1.0 = Booting])
     apply (rule proceeds_alloc_stay; simp)
    apply (rule proceeds_if)
     apply (rule proceeds_Stop; simp add: stops_def)
    apply (rule proceeds_bind_to [where ?p1.0 = Booting])
     apply (rule proceeds_out_to; simp)
    apply (rule proceeds_bind_to [where ?p1.0 = Booting])
     apply (rule proceeds_mkdir_p [OF ne])
    apply (rule proceeds_if)
     apply (rule proceeds_bind_to [where ?p1.0 = Doomed])
      apply (rule proceeds_out_to; simp)
     apply (rule proceeds_Stop; simp add: stops_Exited)
    apply (simp only: pre if_False)
    apply (rule Cons.IH [OF rest])
    done
qed

lemma proceeds_main:
  "proceeds Start
     (\<lambda>v p. v = 0 \<and> int (length lines) \<le> INT_MAX \<and> p = Unmounted (int (length lines)))
     (trace w) (responses w) (main env lines w)"
  unfolding main_def
  apply (rule proceeds_bind [where ?Q1.0 = "\<lambda>ok p. p = (if ok then Opened else NoLog)"])
   apply (rule proceeds_alloc; simp)
  apply (rule proceeds_if)
   apply (rule proceeds_bind_to [where ?p1.0 = Doomed])
    apply (rule proceeds_out_to; simp)
   apply (rule proceeds_Stop; simp add: stops_Exited)
  apply (rule proceeds_bind_to [where ?p1.0 = Booting])
   apply (rule proceeds_mountall; simp)
  apply (rule proceeds_bind_to [where ?p1.0 = Booting])
   apply (rule proceeds_bootstrap_loop)
   apply (simp add: file_dir_array_def INT_MAX_def)
  apply (rule proceeds_bind_to [where ?p1.0 = "Unmounted 0"])
   apply (rule proceeds_unmount_all; simp)
  apply (rule proceeds_bind [OF proceeds_replay_loop])
   apply (simp add: INT_MAX_def)
  apply (rule proceeds_Ret; simp)
  done

subsection \<open>The bracketing of every record\<close>

text \<open>The driver on the log of two records, with the answers of \<open>example_answers\<close>.\<close>

lemma main_example:
  "main env0 example_log (world0 example_answers)
   = Ret 0
       \<lparr>responses = [],
        trace =
          [Sys (Fopen ''jfs_op_sequence.log'') (Ok 1),
           Sys (Mount ''/dev/ram0'' ''/mnt/test-jfs-i1-s0'' ''jfs'' 1024 []) (Ok 0),
           Stdout (''pre=0 '' @ nl), Sys (Calloc 1 25) (Ok 1),
           Stdout (''pre_path_name=/mnt/test-jfs-i1-s0/d-01'' @ nl),
           Sys (Mkdir ''/mnt'' 493) (Err 17), Sys (Mkdir ''/mnt/test-jfs-i1-s0'' 493) (Err 17),
           Sys (Mkdir ''/mnt/test-jfs-i1-s0/d-01'' 493) (Ok 0), Stdout (''pre=1 '' @ nl),
           Sys (Calloc 1 30) (Ok 1),
           Stdout (''pre_path_name=/mnt/test-jfs-i1-s0/d-01/f-00'' @ nl),
           Sys (Mkdir ''/mnt'' 493) (Err 17), Sys (Mkdir ''/mnt/test-jfs-i1-s0'' 493) (Err 17),
           Sys (Mkdir ''/mnt/test-jfs-i1-s0/d-01'' 493) (Err 17),
           Sys (Creat ''/mnt/test-jfs-i1-s0/d-01/f-00'' 420) (Ok 3), Sys (Close 3) (Ok 0),
           Sys (Mkdir ''/mnt/test-jfs-i1-s0/d-01/f-00'' 493) (Err 17),
           Stdout (''pre=2 '' @ nl), Sys (Calloc 1 30) (Ok 1),
           Stdout (''pre_path_name=/mnt/test-jfs-i1-s0/d-00/d-01'' @ nl),
           Sys (Mkdir ''/mnt'' 493) (Err 17), Sys (Mkdir ''/mnt/test-jfs-i1-s0'' 493) (Err 17),
           Sys (Mkdir ''/mnt/test-jfs-i1-s0/d-00'' 493) (Ok 0),
           Sys (Mkdir ''/mnt/test-jfs-i1-s0/d-00/d-01'' 493) (Ok 0), Stdout (''pre=3 '' @ nl),
           Sys (Calloc 1 30) (Ok 1),
           Stdout (''pre_path_name=/mnt/test-jfs-i1-s0/d-01/d-01'' @ nl),
           Sys (Mkdir ''/mnt'' 493) (Err 17), Sys (Mkdir ''/mnt/test-jfs-i1-s0'' 493) (Err 17),
           Sys (Mkdir ''/mnt/test-jfs-i1-s0/d-01'' 493) (Err 17),
           Sys (Mkdir ''/mnt/test-jfs-i1-s0/d-01/d-01'' 493) (Ok 0),
           Sys (Umount2 ''/mnt/test-jfs-i1-s0'' 0) (Ok 0), Sys (Malloc 17) (Ok 1),
           Stdout (''seq=0 '' @ nl), Sys (Calloc 16 8) (Ok 1), Sys (Malloc 6) (Ok 1),
           Sys (Malloc 3) (Ok 1), Sys (Malloc 5) (Ok 1),
           Sys (Mount ''/dev/ram0'' ''/mnt/test-jfs-i1-s0'' ''jfs'' 1024 []) (Ok 0),
           Sys (Mkdir ''/f'' 493) (Ok 0),
           Stdout (''mkdir(/f, 0755) -> ret=0, errno=File exists'' @ nl),
           Sys (Umount2 ''/mnt/test-jfs-i1-s0'' 0) (Ok 0), Sys (Malloc 11) (Ok 1),
           Stdout (''seq=1 '' @ nl), Sys (Calloc 16 8) (Ok 1), Sys (Malloc 6) (Ok 1),
           Sys (Malloc 3) (Ok 1),
           Sys (Mount ''/dev/ram0'' ''/mnt/test-jfs-i1-s0'' ''jfs'' 1024 []) (Ok 0),
           Sys (Rmdir ''/g'') (Err 2),
           Stdout (''rmdir(/g) -> ret=-1, errno=No such file or directory'' @ nl),
           Sys (Umount2 ''/mnt/test-jfs-i1-s0'' 0) (Err 16),
           Stderr (''File system jfs mounted on /mnt/test-jfs-i1-s0 is busy. Retry 1 times,unmounting after 100ms.'' @ nl),
           Sys (Usleep 100000) (Ok 0), Sys (Umount2 ''/mnt/test-jfs-i1-s0'' 0) (Ok 0)],
        errno = 0\<rparr>"
  by (simp add: example_log_def example_answers_def main_def bootstrap_loop.simps
      file_dir_array_def sequence_log_file_name_def mkdir_p_def mkdir_loop.simps n_fs_def
      INT_MAX_def replay_loop.simps extract_fields_def vector_init_def vector_add_def
      fields_loop.simps field_def vector_get_def mountall_def dispatch_def do_mkdir_def
      do_rmdir_def report_def conv_def unmount_all_def unmount_loop.simps env0_def
      strerror_linux_def Let_def run_simps libc_simps const_simps)

text \<open>
  Claim C7, as the code has it. Whatever the lines of the log and the answers of the
  environment are, and as far as the execution has come, the events of \<open>main\<close> are
  accepted by the automaton \<open>step\<close> from the phase \<open>Start\<close>, and those of its replay
  loop from the phase \<open>Unmounted seq\<close>; every answer that is used up is the answer to a
  call in the trace, and the execution stops only as \<open>stops\<close> allows in the phase it
  has reached. So a \<open>mount\<close> is issued only while no session is active:
  once after \<open>fopen\<close>, for the session of the bootstrap, and once for every record,
  after the record is announced and tokenized. The events of a handler come only after
  the successful \<open>mount\<close> of its record, and there is no \<open>mount\<close> and no \<open>umount2\<close> among
  them. When a handler has returned, which is when it has printed its result line,
  nothing follows but the attempts of one strict unmount, and the execution does not
  end there, unless the sequence counter is \<open>INT_MAX\<close> and its increment undefined; the
  next record is announced, with a sequence counter that is one more, only when
  \<open>umount2\<close> has returned \<open>0\<close> and no attempt has reported an error other than \<open>EBUSY\<close>.
  Otherwise the driver exits with the code 1, and it exits only behind a failed
  \<open>fopen\<close>, \<open>mount\<close>, bootstrap or unmount. When the loop returns, nothing is mounted
  and the sequence counter has grown by the number of lines; when \<open>main\<close> returns, it
  returns \<open>0\<close>. A handler that does not return (an assertion that fails, a field that is
  missing) ends the execution in its session: no \<open>umount2\<close> follows it.
\<close>

theorem driver_session:
  assumes "- (2 ^ 31) \<le> seq" and "seq \<le> INT_MAX"
  shows "proceeds Start
       (\<lambda>v p. v = 0 \<and> int (length lines) \<le> INT_MAX \<and> p = Unmounted (int (length lines)))
       (trace w) (responses w) (main env lines w)
   \<and> proceeds (Unmounted seq)
       (\<lambda>seq' p. seq' = seq + int (length lines) \<and> seq' \<le> INT_MAX \<and> p = Unmounted seq')
       (trace w) (responses w) (replay_loop env nfs lines seq w)"
  using proceeds_main proceeds_replay_loop [OF assms(2)] by (rule conjI)

theorem driver_session_witness:
  "- (2 ^ 31) \<le> (0::int) \<and> (0::int) \<le> INT_MAX
   \<and> proceeds Start (\<lambda>v p. v = 0 \<and> (2::int) \<le> INT_MAX \<and> p = Unmounted 2) []
       example_answers (main env0 example_log (world0 example_answers))
   \<and> proceeds (Unmounted 0) (\<lambda>seq' p. seq' = 0 + 2 \<and> seq' \<le> INT_MAX \<and> p = Unmounted seq') []
       (drop 24 example_answers)
       (replay_loop env0 1 example_log 0 (world0 (drop 24 example_answers)))
   \<and> main env0 example_log (world0 example_answers)
     = Ret 0
       \<lparr>responses = [],
        trace =
          [Sys (Fopen ''jfs_op_sequence.log'') (Ok 1),
           Sys (Mount ''/dev/ram0'' ''/mnt/test-jfs-i1-s0'' ''jfs'' 1024 []) (Ok 0),
           Stdout (''pre=0 '' @ nl), Sys (Calloc 1 25) (Ok 1),
           Stdout (''pre_path_name=/mnt/test-jfs-i1-s0/d-01'' @ nl),
           Sys (Mkdir ''/mnt'' 493) (Err 17), Sys (Mkdir ''/mnt/test-jfs-i1-s0'' 493) (Err 17),
           Sys (Mkdir ''/mnt/test-jfs-i1-s0/d-01'' 493) (Ok 0), Stdout (''pre=1 '' @ nl),
           Sys (Calloc 1 30) (Ok 1),
           Stdout (''pre_path_name=/mnt/test-jfs-i1-s0/d-01/f-00'' @ nl),
           Sys (Mkdir ''/mnt'' 493) (Err 17), Sys (Mkdir ''/mnt/test-jfs-i1-s0'' 493) (Err 17),
           Sys (Mkdir ''/mnt/test-jfs-i1-s0/d-01'' 493) (Err 17),
           Sys (Creat ''/mnt/test-jfs-i1-s0/d-01/f-00'' 420) (Ok 3), Sys (Close 3) (Ok 0),
           Sys (Mkdir ''/mnt/test-jfs-i1-s0/d-01/f-00'' 493) (Err 17),
           Stdout (''pre=2 '' @ nl), Sys (Calloc 1 30) (Ok 1),
           Stdout (''pre_path_name=/mnt/test-jfs-i1-s0/d-00/d-01'' @ nl),
           Sys (Mkdir ''/mnt'' 493) (Err 17), Sys (Mkdir ''/mnt/test-jfs-i1-s0'' 493) (Err 17),
           Sys (Mkdir ''/mnt/test-jfs-i1-s0/d-00'' 493) (Ok 0),
           Sys (Mkdir ''/mnt/test-jfs-i1-s0/d-00/d-01'' 493) (Ok 0), Stdout (''pre=3 '' @ nl),
           Sys (Calloc 1 30) (Ok 1),
           Stdout (''pre_path_name=/mnt/test-jfs-i1-s0/d-01/d-01'' @ nl),
           Sys (Mkdir ''/mnt'' 493) (Err 17), Sys (Mkdir ''/mnt/test-jfs-i1-s0'' 493) (Err 17),
           Sys (Mkdir ''/mnt/test-jfs-i1-s0/d-01'' 493) (Err 17),
           Sys (Mkdir ''/mnt/test-jfs-i1-s0/d-01/d-01'' 493) (Ok 0),
           Sys (Umount2 ''/mnt/test-jfs-i1-s0'' 0) (Ok 0), Sys (Malloc 17) (Ok 1),
           Stdout (''seq=0 '' @ nl), Sys (Calloc 16 8) (Ok 1), Sys (Malloc 6) (Ok 1),
           Sys (Malloc 3) (Ok 1), Sys (Malloc 5) (Ok 1),
           Sys (Mount ''/dev/ram0'' ''/mnt/test-jfs-i1-s0'' ''jfs'' 1024 []) (Ok 0),
           Sys (Mkdir ''/f'' 493) (Ok 0),
           Stdout (''mkdir(/f, 0755) -> ret=0, errno=File exists'' @ nl),
           Sys (Umount2 ''/mnt/test-jfs-i1-s0'' 0) (Ok 0), Sys (Malloc 11) (Ok 1),
           Stdout (''seq=1 '' @ nl), Sys (Calloc 16 8) (Ok 1), Sys (Malloc 6) (Ok 1),
           Sys (Malloc 3) (Ok 1),
           Sys (Mount ''/dev/ram0'' ''/mnt/test-jfs-i1-s0'' ''jfs'' 1024 []) (Ok 0),
           Sys (Rmdir ''/g'') (Err 2),
           Stdout (''rmdir(/g) -> ret=-1, errno=No such file or directory'' @ nl),
           Sys (Umount2 ''/mnt/test-jfs-i1-s0'' 0) (Err 16),
           Stderr (''File system jfs mounted on /mnt/test-jfs-i1-s0 is busy. Retry 1 times,unmounting after 100ms.'' @ nl),
           Sys (Usleep 100000) (Ok 0), Sys (Umount2 ''/mnt/test-jfs-i1-s0'' 0) (Ok 0)],
        errno = 0\<rparr>"
proof -
  have r: "- (2 ^ 31) \<le> (0::int)" "(0::int) \<le> INT_MAX"
    by (simp_all add: INT_MAX_def)
  have t: "trace (world0 rs) = []" "responses (world0 rs) = rs" for rs
    by (simp_all add: world0_def)
  have l: "int (length example_log) = 2"
    by (simp add: example_log_def)
  from driver_session [OF r, of example_log "world0 example_answers" env0]
  have m: "proceeds Start (\<lambda>v p. v = 0 \<and> (2::int) \<le> INT_MAX \<and> p = Unmounted 2) []
       example_answers (main env0 example_log (world0 example_answers))"
    by (simp add: t l)
  from driver_session [OF r, of example_log "world0 (drop 24 example_answers)" env0 1]
  have p: "proceeds (Unmounted 0)
       (\<lambda>seq' p. seq' = 0 + 2 \<and> seq' \<le> INT_MAX \<and> p = Unmounted seq') []
       (drop 24 example_answers)
       (replay_loop env0 1 example_log 0 (world0 (drop 24 example_answers)))"
    by (simp add: t l)
  from r m p main_example show ?thesis
    by (intro conjI)
qed

text \<open>
  A record whose handler does not return: the length field is \<open>ULONG_MAX\<close>, so that
  \<open>assert(writelen != ULONG_MAX)\<close> in \<open>do_write_file\<close> aborts the process. The driver has
  come through the bootstrap as in the example; the last event is the successful
  \<open>mount\<close> of the record. No \<open>umount2\<close> follows this dispatch, and the answer that was
  there for it is never asked for.
\<close>

theorem driver_abort_counterexample:
  "main env0 [''write_file, /f, 02, 0, 0, 18446744073709551615'' @ nl]
     (world0 (take 24 example_answers @ [Ok 1, Ok 1, Ok 1, Ok 1, Ok 1, Ok 1, Ok 1, Ok 1, Ok 0, Ok 0]))
   = Stop Aborted
       \<lparr>responses = [Ok 0],
        trace =
          [Sys (Fopen ''jfs_op_sequence.log'') (Ok 1),
           Sys (Mount ''/dev/ram0'' ''/mnt/test-jfs-i1-s0'' ''jfs'' 1024 []) (Ok 0),
           Stdout (''pre=0 '' @ nl), Sys (Calloc 1 25) (Ok 1),
           Stdout (''pre_path_name=/mnt/test-jfs-i1-s0/d-01'' @ nl),
           Sys (Mkdir ''/mnt'' 493) (Err 17), Sys (Mkdir ''/mnt/test-jfs-i1-s0'' 493) (Err 17),
           Sys (Mkdir ''/mnt/test-jfs-i1-s0/d-01'' 493) (Ok 0), Stdout (''pre=1 '' @ nl),
           Sys (Calloc 1 30) (Ok 1),
           Stdout (''pre_path_name=/mnt/test-jfs-i1-s0/d-01/f-00'' @ nl),
           Sys (Mkdir ''/mnt'' 493) (Err 17), Sys (Mkdir ''/mnt/test-jfs-i1-s0'' 493) (Err 17),
           Sys (Mkdir ''/mnt/test-jfs-i1-s0/d-01'' 493) (Err 17),
           Sys (Creat ''/mnt/test-jfs-i1-s0/d-01/f-00'' 420) (Ok 3), Sys (Close 3) (Ok 0),
           Sys (Mkdir ''/mnt/test-jfs-i1-s0/d-01/f-00'' 493) (Err 17),
           Stdout (''pre=2 '' @ nl), Sys (Calloc 1 30) (Ok 1),
           Stdout (''pre_path_name=/mnt/test-jfs-i1-s0/d-00/d-01'' @ nl),
           Sys (Mkdir ''/mnt'' 493) (Err 17), Sys (Mkdir ''/mnt/test-jfs-i1-s0'' 493) (Err 17),
           Sys (Mkdir ''/mnt/test-jfs-i1-s0/d-00'' 493) (Ok 0),
           Sys (Mkdir ''/mnt/test-jfs-i1-s0/d-00/d-01'' 493) (Ok 0), Stdout (''pre=3 '' @ nl),
           Sys (Calloc 1 30) (Ok 1),
           Stdout (''pre_path_name=/mnt/test-jfs-i1-s0/d-01/d-01'' @ nl),
           Sys (Mkdir ''/mnt'' 493) (Err 17), Sys (Mkdir ''/mnt/test-jfs-i1-s0'' 493) (Err 17),
           Sys (Mkdir ''/mnt/test-jfs-i1-s0/d-01'' 493) (Err 17),
           Sys (Mkdir ''/mnt/test-jfs-i1-s0/d-01/d-01'' 493) (Ok 0),
           Sys (Umount2 ''/mnt/test-jfs-i1-s0'' 0) (Ok 0), Sys (Malloc 48) (Ok 1),
           Stdout (''seq=0 '' @ nl), Sys (Calloc 16 8) (Ok 1), Sys (Malloc 11) (Ok 1),
           Sys (Malloc 3) (Ok 1), Sys (Malloc 3) (Ok 1), Sys (Malloc 2) (Ok 1),
           Sys (Malloc 2) (Ok 1), Sys (Malloc 21) (Ok 1),
           Sys (Mount ''/dev/ram0'' ''/mnt/test-jfs-i1-s0'' ''jfs'' 1024 []) (Ok 0)],
        errno = 17\<rparr>"
  by (simp add: example_answers_def main_def bootstrap_loop.simps
      file_dir_array_def sequence_log_file_name_def mkdir_p_def mkdir_loop.simps n_fs_def
      INT_MAX_def replay_loop.simps extract_fields_def vector_init_def vector_add_def
      fields_loop.simps field_def vector_get_def mountall_def dispatch_def do_write_file_def
      conv_def unmount_all_def unmount_loop.simps env0_def
      strerror_linux_def Let_def run_simps libc_simps const_simps)

end
